theory Spec2Isabelle
  imports Complex_Main "HOL-Library.Log_Nat"
begin

section \<open>The whack-a-mole round: data model\<close>

text \<open>
  The development embeds the \<open>Game\<close> component: its state, \<open>spawnEntity\<close>,
  \<open>handleWhack\<close>, the frame \<open>loop\<close>, the pause effect and the timers it sets, together
  with the parent's \<open>handleGameOver\<close>.

  A callback of a React component works on two things: the values its closure captured in
  the render that created it (\<open>grid\<close>, \<open>score\<close>, \<open>timeLeft\<close>), and the state that the
  updater functions it passes to the setters are applied to. \<open>spawnEntity\<close> and
  \<open>handleWhack\<close> therefore take the captured values as arguments of their own, next to
  the state they update. The \<open>loop\<close> of a render is cancelled and requested anew by the
  effect of the next render, so it runs on the state it reads; a hole keeps an exiting
  element alive with the callbacks of the render that created it, so \<open>handleWhack\<close> can be
  invoked from an earlier render. The parent keeps the component mounted while its exit
  animation runs. Which callback runs when is given by a trace of events; clock reads and
  random draws are inputs.
\<close>

subsection \<open>Numbers\<close>

text \<open>
  A JavaScript number is an IEEE 754 double. \<open>fl\<close> rounds a real to the nearest double,
  ties to even, with gradual underflow; overflow is left out (the program's magnitudes stay
  far below \<open>2^1024\<close>). Every arithmetic result that can be inexact is wrapped in
  \<open>fl\<close>. Score and lives are integers, and clock values are whole milliseconds below
  \<open>2^53\<close>: their sums and differences are exact in doubles and are written without
  rounding.
\<close>

definition rne :: "real \<Rightarrow> int" where
  "rne y =
     (let n = \<lfloor>y\<rfloor>; r = y - of_int n
      in if r < 1 / 2 then n else if 1 / 2 < r then n + 1 else if even n then n else n + 1)"

text \<open>The binary exponent of a positive real: \<open>2 powi expo a \<le> a < 2 powi (expo a + 1)\<close>.\<close>

definition expo :: "real \<Rightarrow> int" where
  "expo a = (if 1 \<le> a then bitlen \<lfloor>a\<rfloor> - 1 else - bitlen (\<lceil>1 / a\<rceil> - 1))"

definition ulp :: "real \<Rightarrow> real" where
  "ulp a = 2 powi (max (expo a) (- 1022) - 52)"

definition flpos :: "real \<Rightarrow> real" where
  "flpos a = of_int (rne (a / ulp a)) * ulp a"

definition fl :: "real \<Rightarrow> real" where
  "fl x = (if x = 0 then 0 else if 0 < x then flpos x else - flpos (- x))"

subsection \<open>Types and state\<close>

datatype EntityType = Mole | Golden | Bomb

record GameEntity =
  ident :: string
  type :: EntityType
  spawnTime :: real
  duration :: real
  isHit :: bool

type_synonym GridState = "GameEntity option list"

datatype GameStatus = IDLE | PLAYING | GAME_OVER

datatype cue = PlayWhack | PlayGolden | PlayBomb | PlayGameOver

definition GRID_SIZE :: nat where "GRID_SIZE = 12"
definition GAME_DURATION :: real where "GAME_DURATION = 30"
definition SPAWN_INTERVAL_START :: real where "SPAWN_INTERVAL_START = 800"
definition SPAWN_INTERVAL_END :: real where "SPAWN_INTERVAL_END = 400"
definition MOLE_DURATION_START :: real where "MOLE_DURATION_START = 1500"
definition MOLE_DURATION_END :: real where "MOLE_DURATION_END = 700"

text \<open>
  The component's state hooks and refs, followed by what lives outside the component: the
  parent's screen \<open>status\<close>, the pending \<open>setTimeout\<close> callbacks (due time and the
  score their closure captured), the log of \<open>onGameOver\<close> calls, the log of audio cues,
  and a counter of calls to \<open>spawnEntity\<close>.
\<close>

record game =
  grid :: GridState
  score :: int
  timeLeft :: real
  lives :: int
  isPaused :: bool
  lastSpawnTime :: real
  startTime :: real
  pausedTime :: real
  status :: GameStatus
  timers :: "(real \<times> int) list"
  reported :: "int list"
  cues :: "cue list"
  spawnCalls :: nat

text \<open>The inputs one call of \<open>spawnEntity\<close> reads from its environment: the three
  \<open>Math.random()\<close> draws (slot, kind, and the one the id is printed from) and its own
  \<open>Date.now()\<close>.\<close>

record draws =
  pick :: real
  roll :: real
  fresh :: string
  clock :: real

text \<open>State of a freshly mounted component at clock value \<open>t0\<close>.\<close>

definition mount :: "real \<Rightarrow> game" where
  "mount t0 = \<lparr> grid = replicate GRID_SIZE None, score = 0, timeLeft = GAME_DURATION,
      lives = 3, isPaused = False, lastSpawnTime = 0, startTime = t0, pausedTime = 0,
      status = PLAYING, timers = [], reported = [], cues = [], spawnCalls = 0 \<rparr>"

section \<open>Spawn scheduler\<close>

text \<open>\<open>elapsed = GAME_DURATION - timeLeft; Math.min(Math.max(elapsed / GAME_DURATION, 0),
  1)\<close>.\<close>

definition getDifficulty :: "real \<Rightarrow> real" where
  "getDifficulty tleft = min (max (fl (fl (GAME_DURATION - tleft) / GAME_DURATION)) 0) 1"

text \<open>The cap \<open>1 + Math.floor(difficulty * 2)\<close> and the filter predicate
  \<open>e !== null && !e.isHit\<close> of \<open>spawnEntity\<close>, named for use in the statements.\<close>

definition maxConcurrent :: "real \<Rightarrow> int" where
  "maxConcurrent tleft = 1 + \<lfloor>fl (getDifficulty tleft * 2)\<rfloor>"

definition unhit :: "GameEntity option \<Rightarrow> bool" where
  "unhit e = (case e of None \<Rightarrow> False | Some x \<Rightarrow> \<not> isHit x)"

definition currentCount :: "GridState \<Rightarrow> nat" where
  "currentCount g = length (filter unhit g)"

definition emptyIndices :: "GridState \<Rightarrow> int list" where
  "emptyIndices g =
     filter (\<lambda>i. i \<noteq> -1)
       (map (\<lambda>(e, i). if e = None then i else -1) (zip g (map int [0..<length g])))"

text \<open>\<open>xs[k]\<close> on a JavaScript array: \<open>undefined\<close> outside the bounds.\<close>

definition elemAt :: "'a list \<Rightarrow> int \<Rightarrow> 'a option" where
  "elemAt xs k = (if 0 \<le> k \<and> nat k < length xs then Some (xs ! nat k) else None)"

definition pickType :: "real \<Rightarrow> EntityType" where
  "pickType r = (if r > 0.85 then Bomb else if r > 0.7 then Golden else Mole)"

text \<open>The updater \<open>prev => { next = [...prev]; next[randomIndex] = newEntity }\<close>.
  Assigning at \<open>undefined\<close> touches no slot; assigning past the end pads with holes.\<close>

definition putEntity :: "int option \<Rightarrow> GameEntity \<Rightarrow> GridState \<Rightarrow> GridState" where
  "putEntity ri e prev =
     (case ri of
        None \<Rightarrow> prev
      | Some i \<Rightarrow>
          if i < 0 then prev
          else if nat i < length prev then prev[nat i := Some e]
          else prev @ replicate (nat i - length prev) None @ [Some e])"

text \<open>\<open>spawnEntity\<close> reads the captured \<open>grid\<close> and \<open>timeLeft\<close> (arguments \<open>g\<close> and
  \<open>tleft\<close>) and queues one grid update on the state \<open>s\<close>.\<close>

definition spawnEntity :: "draws \<Rightarrow> GridState \<Rightarrow> real \<Rightarrow> game \<Rightarrow> game" where
  "spawnEntity d g tleft s =
     (let difficulty = getDifficulty tleft;
          maxC = 1 + \<lfloor>fl (difficulty * 2)\<rfloor>;
          cnt = currentCount g
      in if int cnt \<ge> maxC then s
         else let empt = emptyIndices g
              in if length empt = 0 then s
                 else let randomIndex = elemAt empt \<lfloor>fl (pick d * real (length empt))\<rfloor>;
                          ty = pickType (roll d);
                          dur = fl (MOLE_DURATION_START
                                  - fl (difficulty
                                        * fl (MOLE_DURATION_START - MOLE_DURATION_END)));
                          newEntity = \<lparr> ident = fresh d, type = ty, spawnTime = clock d,
                                        duration = dur, isHit = False \<rparr>
                      in s\<lparr> grid := putEntity randomIndex newEntity (grid s) \<rparr>)"

section \<open>Hit resolver\<close>

text \<open>The updater \<open>prev => { next = [...prev]; if (next[index]) next[index] = {...,
  isHit: true} }\<close>.\<close>

definition markHit :: "int \<Rightarrow> GridState \<Rightarrow> GridState" where
  "markHit index prev =
     (case elemAt prev index of
        Some (Some e) \<Rightarrow> prev[nat index := Some (e\<lparr> isHit := True \<rparr>)]
      | _ \<Rightarrow> prev)"

text \<open>The parent's \<open>handleGameOver\<close>: it records the call and switches the screen (its
  score bookkeeping is not part of the round).\<close>

definition onGameOver :: "int \<Rightarrow> game \<Rightarrow> game" where
  "onGameOver sc s =
     s\<lparr> reported := reported s @ [sc], cues := cues s @ [PlayGameOver], status := GAME_OVER \<rparr>"

text \<open>\<open>handleWhack\<close> at clock value \<open>now\<close> (the clock only matters for the due time
  of the timer it may set). The guard, the kind of the entity and the score handed to the
  timer come from the captured \<open>grid\<close> and \<open>score\<close> (arguments \<open>g\<close> and \<open>sc\<close>); the
  grid, lives and score updaters work on the state \<open>s\<close>.\<close>

definition handleWhack :: "real \<Rightarrow> int \<Rightarrow> GridState \<Rightarrow> int \<Rightarrow> game \<Rightarrow> game" where
  "handleWhack now index g sc s =
     (case elemAt g index of
        None \<Rightarrow> s
      | Some None \<Rightarrow> s
      | Some (Some entity) \<Rightarrow>
          if isHit entity then s
          else let s1 = s\<lparr> grid := markHit index (grid s) \<rparr>
               in if type entity = Bomb then
                    let s2 = s1\<lparr> cues := cues s1 @ [PlayBomb] \<rparr>;
                        newLives = lives s2 - 1;
                        s3 = (if newLives \<le> 0
                              then s2\<lparr> timers := timers s2 @ [(now + 500, sc)] \<rparr>
                              else s2)
                    in s3\<lparr> lives := newLives \<rparr>
                  else if type entity = Golden then
                    s1\<lparr> cues := cues s1 @ [PlayGolden], score := score s1 + 3 \<rparr>
                  else
                    s1\<lparr> cues := cues s1 @ [PlayWhack], score := score s1 + 1 \<rparr>)"

section \<open>Frame loop, pause effect, timers\<close>

definition despawn :: "real \<Rightarrow> GameEntity option \<Rightarrow> GameEntity option" where
  "despawn now entity =
     (case entity of
        None \<Rightarrow> None
      | Some e \<Rightarrow>
          if isHit e \<and> now - spawnTime e > fl (duration e + 500) then None
          else if \<not> isHit e \<and> now - spawnTime e > duration e then None
          else Some e)"

definition sweep :: "real \<Rightarrow> GridState \<Rightarrow> GridState" where
  "sweep now prev = map (despawn now) prev"

definition currentSpawnInterval :: "real \<Rightarrow> real" where
  "currentSpawnInterval newTimeLeft =
     (let difficulty = fl (fl (GAME_DURATION - newTimeLeft) / GAME_DURATION)
      in fl (SPAWN_INTERVAL_START
             - fl (difficulty * fl (SPAWN_INTERVAL_START - SPAWN_INTERVAL_END))))"

text \<open>What a tick at clock value \<open>now\<close> computes as \<open>newTimeLeft\<close>:
  \<open>elapsed = (now - startTime.current) / 1000; Math.max(GAME_DURATION - elapsed, 0)\<close>.\<close>

definition remaining :: "real \<Rightarrow> game \<Rightarrow> real" where
  "remaining now s = max (fl (GAME_DURATION - fl ((now - startTime s) / 1000))) 0"

text \<open>One run of \<open>loop\<close> at clock value \<open>now\<close>.\<close>

definition loop :: "real \<Rightarrow> draws \<Rightarrow> game \<Rightarrow> game" where
  "loop now d s =
     (if isPaused s then s
      else let newTimeLeft = remaining now s;
               s1 = s\<lparr> timeLeft := newTimeLeft \<rparr>
           in if newTimeLeft \<le> 0 then onGameOver (score s) s1
              else let s2 = s1\<lparr> grid := sweep now (grid s1) \<rparr>
                   in if now - lastSpawnTime s2 > currentSpawnInterval newTimeLeft
                      then (spawnEntity d (grid s) (timeLeft s) s2)
                             \<lparr> lastSpawnTime := now, spawnCalls := Suc (spawnCalls s2) \<rparr>
                      else s2)"

text \<open>The effect on \<open>[isPaused]\<close>, run after the flag has changed.\<close>

definition pauseEffect :: "real \<Rightarrow> game \<Rightarrow> game" where
  "pauseEffect now s =
     (if \<not> isPaused s \<and> pausedTime s > 0 then
        (let pauseDuration = now - pausedTime s
         in s\<lparr> startTime := startTime s + pauseDuration, pausedTime := 0 \<rparr>)
      else if isPaused s then s\<lparr> pausedTime := now \<rparr>
      else s)"

text \<open>The state setter of the pause flag followed by the effect, which runs only when the
  flag has changed. (No control of the component calls the setter; the pause logic is
  modelled as written.)\<close>

definition setIsPaused :: "real \<Rightarrow> bool \<Rightarrow> game \<Rightarrow> game" where
  "setIsPaused now b s =
     (if isPaused s = b then s
      else pauseEffect now (s\<lparr> isPaused := b \<rparr>))"

text \<open>Timers are never cleared: every pending callback whose due time has come runs, in
  the order the timers were set.\<close>

definition fireTimers :: "real \<Rightarrow> game \<Rightarrow> game" where
  "fireTimers now s =
     foldl (\<lambda>a (t, sc). onGameOver sc a)
       (s\<lparr> timers := filter (\<lambda>(t, sc). \<not> t \<le> now) (timers s) \<rparr>)
       (filter (\<lambda>(t, sc). t \<le> now) (timers s))"

section \<open>Event traces\<close>

text \<open>
  \<open>Tick\<close> is a run of the frame callback, \<open>Whack\<close> an invocation of the
  \<open>handleWhack\<close> of the latest render, \<open>WhackStale\<close> an invocation of a
  \<open>handleWhack\<close> created by an earlier render (with the grid and score that closure
  captured), \<open>SetPaused\<close> a call of the pause setter, \<open>Timeout\<close> the host running the
  timers that are due. Nothing is switched off when the parent's screen has changed: the
  component is still mounted while it fades out.
\<close>

datatype event =
    Tick real draws
  | Whack real int
  | WhackStale real int GridState int
  | SetPaused real bool
  | Timeout real

fun time_of :: "event \<Rightarrow> real" where
  "time_of (Tick t d) = t"
| "time_of (Whack t i) = t"
| "time_of (WhackStale t i g sc) = t"
| "time_of (SetPaused t b) = t"
| "time_of (Timeout t) = t"

fun step :: "event \<Rightarrow> game \<Rightarrow> game" where
  "step (Tick t d) s = loop t d s"
| "step (Whack t i) s = handleWhack t i (grid s) (score s) s"
| "step (WhackStale t i g sc) s = handleWhack t i g sc s"
| "step (SetPaused t b) s = setIsPaused t b s"
| "step (Timeout t) s = fireTimers t s"

fun run :: "event list \<Rightarrow> game \<Rightarrow> game" where
  "run [] s = s"
| "run (e # es) s = run es (step e s)"

text \<open>The clock does not run backwards along a trace that starts at time \<open>t\<close>.\<close>

fun timed :: "real \<Rightarrow> event list \<Rightarrow> bool" where
  "timed t [] = True"
| "timed t (e # es) = (t \<le> time_of e \<and> timed (time_of e) es)"

section \<open>Invariants and derived notions used in the statements\<close>

text \<open>Time invariant at clock value \<open>t\<close>: the displayed \<open>timeLeft\<close> is at least what
  the next tick would compute; during a pause the clock is read at the moment the pause
  began.\<close>

definition timeInv :: "real \<Rightarrow> game \<Rightarrow> bool" where
  "timeInv t s =
     (if isPaused s
      then 0 < pausedTime s \<and> pausedTime s \<le> t \<and> remaining (pausedTime s) s \<le> timeLeft s
      else remaining t s \<le> timeLeft s)"

definition countInv :: "game \<Rightarrow> bool" where
  "countInv s = (int (currentCount (grid s)) \<le> maxConcurrent (timeLeft s))"

definition roundInv :: "real \<Rightarrow> game \<Rightarrow> bool" where
  "roundInv t s = (0 < t \<and> timeInv t s \<and> countInv s)"

text \<open>An invocation of \<open>handleWhack\<close> costs a life when the grid its closure captured
  shows an unhit bomb at the index.\<close>

definition costsLife :: "GridState \<Rightarrow> int \<Rightarrow> bool" where
  "costsLife g index =
     (case elemAt g index of
        Some (Some e) \<Rightarrow> \<not> isHit e \<and> type e = Bomb
      | _ \<Rightarrow> False)"

text \<open>Every hit of the trace that costs a life is delivered while at least one life is
  left.\<close>

fun bombsAlive :: "event list \<Rightarrow> game \<Rightarrow> bool" where
  "bombsAlive [] s = True"
| "bombsAlive (Whack t i # es) s =
     ((costsLife (grid s) i \<longrightarrow> 0 < lives s) \<and> bombsAlive es (step (Whack t i) s))"
| "bombsAlive (WhackStale t i g sc # es) s =
     ((costsLife g i \<longrightarrow> 0 < lives s) \<and> bombsAlive es (step (WhackStale t i g sc) s))"
| "bombsAlive (e # es) s = bombsAlive es (step e s)"

subsection \<open>Concrete rounds\<close>

definition drawOf :: "real \<Rightarrow> string \<Rightarrow> real \<Rightarrow> draws" where
  "drawOf r n t = \<lparr> pick = 0, roll = r, fresh = n, clock = t \<rparr>"

text \<open>A round mounted at clock value 1000 in which four bombs are hit, the last two within
  100 ms of each other.\<close>

definition doubleBombRound :: "event list" where
  "doubleBombRound =
     [Tick 1016 (drawOf 0.9 ''a'' 1016), Whack 1100 0,
      Tick 2000 (drawOf 0.9 ''b'' 2000), Whack 2100 1,
      Tick 17000 (drawOf 0.9 ''c'' 17000),
      Tick 17700 (drawOf 0.9 ''d'' 17700),
      Whack 17800 0, Whack 17900 2, Timeout 18400]"

text \<open>The same round, except that the fourth entity is a mole: the third bomb is hit, then
  the mole within the 500 ms before the deferred report.\<close>

definition deferralRound :: "event list" where
  "deferralRound =
     [Tick 1016 (drawOf 0.9 ''a'' 1016), Whack 1100 0,
      Tick 2000 (drawOf 0.9 ''b'' 2000), Whack 2100 1,
      Tick 17000 (drawOf 0.9 ''c'' 17000),
      Tick 17700 (drawOf 0.5 ''d'' 17700),
      Whack 17800 2, Whack 17900 0, Timeout 18400]"

text \<open>A round in which a mole and a golden entity are hit, the game is paused for two
  seconds, and the time runs out; the frame callback runs once more after the tick that
  found no time left.\<close>

definition quietRound :: "event list" where
  "quietRound =
     [Tick 1016 (drawOf 0.5 ''a'' 1016), Whack 1100 0,
      Tick 2000 (drawOf 0.8 ''b'' 2000), Whack 2100 1, Whack 2150 1,
      SetPaused 3000 True, Tick 4000 (drawOf 0.9 ''c'' 4000), SetPaused 5000 False,
      Tick 6000 (drawOf 0.9 ''d'' 6000),
      Tick 33000 (drawOf 0.9 ''e'' 33000), Tick 33016 (drawOf 0.9 ''f'' 33016)]"

text \<open>States reached by the first tick of a round mounted at clock value 1000: a mole,
  respectively a bomb, has come up in slot 0.\<close>

definition moleUp :: game where
  "moleUp = loop 1016 (drawOf 0.5 ''a'' 1016) (mount 1000)"

definition bombUp :: game where
  "bombUp = loop 1016 (drawOf 0.9 ''a'' 1016) (mount 1000)"

text \<open>A round mounted at clock value 1000 whose last spawn attempt was made at 7800, and
  one whose last spawn attempt was made at 22088.\<close>

definition cadenceState :: game where
  "cadenceState = loop 7800 (drawOf 0.5 ''a'' 7800) (mount 1000)"

definition lateCadenceState :: game where
  "lateCadenceState = loop 22088 (drawOf 0.5 ''a'' 22088) (mount 1000)"

text \<open>A round mounted at clock value 1000 whose first two ticks come 19425 ms and 20025 ms
  into the round; the mole spawned by the second tick is hit.\<close>

definition roundingRound :: "event list" where
  "roundingRound =
     [Tick 20425 (drawOf 0.5 ''a'' 20425),
      Tick 21025 (drawOf 0.5 ''b'' 21025),
      Whack 21100 1]"

section \<open>Auxiliary facts\<close>

subsection \<open>Rounding to the nearest double is monotone\<close>

lemma rne_range: "\<lfloor>y\<rfloor> \<le> rne y \<and> rne y \<le> \<lfloor>y\<rfloor> + 1"
  by (simp add: rne_def Let_def)

lemma rne_of_int: "rne (of_int k) = k"
  by (simp add: rne_def)

lemma rne_le: "y \<le> of_int k \<Longrightarrow> rne y \<le> k"
proof -
  assume le: "y \<le> of_int k"
  then have f: "\<lfloor>y\<rfloor> \<le> k" by (simp add: floor_le_iff) 
  show ?thesis
  proof (cases "\<lfloor>y\<rfloor> = k")
    case True
    with le have "y = of_int k" by (metis of_int_floor_le order_antisym)
    then show ?thesis by (simp add: rne_of_int)
  next
    case False
    with f rne_range [of y] show ?thesis by linarith
  qed
qed

lemma rne_ge: "of_int k \<le> y \<Longrightarrow> k \<le> rne y"
proof -
  assume "of_int k \<le> y"
  then have "k \<le> \<lfloor>y\<rfloor>" by (simp add: le_floor_iff)
  with rne_range [of y] show ?thesis by linarith
qed

lemma rne_mono: "a \<le> b \<Longrightarrow> rne a \<le> rne b"
proof -
  assume ab: "a \<le> b"
  then have fl: "\<lfloor>a\<rfloor> \<le> \<lfloor>b\<rfloor>" by (rule floor_mono)
  show ?thesis
  proof (cases "\<lfloor>a\<rfloor> = \<lfloor>b\<rfloor>")
    case True
    with ab show ?thesis by (auto simp: rne_def Let_def)
  next
    case False
    with fl rne_range [of a] rne_range [of b] show ?thesis by linarith
  qed
qed

lemma expo_bounds:
  assumes "0 < a"
  shows "2 powi expo a \<le> a \<and> a < 2 powi (expo a + 1)"
proof (cases "1 \<le> a")
  case True
  let ?n = "\<lfloor>a\<rfloor>"
  from True have n: "0 < ?n" by simp
  have b1: "1 \<le> bitlen ?n" using n by (simp add: bitlen_alt_def)
  from bitlen_bounds [OF n]
  have lo: "(2::int) ^ nat (bitlen ?n - 1) \<le> ?n" and hi: "?n < 2 ^ nat (bitlen ?n)" by simp_all
  have "(2::real) ^ nat (bitlen ?n - 1) \<le> of_int ?n"
    using lo by (metis of_int_le_iff of_int_numeral of_int_power)
  also have "\<dots> \<le> a" by simp
  finally have A: "2 powi expo a \<le> a"
    using True b1 by (simp add: expo_def power_int_def)
  from hi have "?n + 1 \<le> 2 ^ nat (bitlen ?n)" by simp
  then have "of_int (?n + 1) \<le> (2::real) ^ nat (bitlen ?n)"
    by (metis of_int_le_iff of_int_numeral of_int_power)
  moreover have "a < of_int (?n + 1)" by linarith
  ultimately have "a < 2 ^ nat (bitlen ?n)" by linarith
  then have B: "a < 2 powi (expo a + 1)"
    using True b1 by (simp add: expo_def power_int_def)
  from A B show ?thesis ..
next
  case False
  let ?c = "\<lceil>1 / a\<rceil>"
  let ?m = "bitlen (?c - 1)"
  from False assms have y: "1 < 1 / a" by simp
  then have c: "0 < ?c - 1" by (simp add: less_ceiling_iff)
  have m1: "1 \<le> ?m" using c by (simp add: bitlen_alt_def)
  from bitlen_bounds [OF c]
  have lo: "(2::int) ^ nat (?m - 1) \<le> ?c - 1" and hi: "?c - 1 < 2 ^ nat ?m" by simp_all
  from hi have "?c \<le> 2 ^ nat ?m" by simp
  then have "of_int ?c \<le> (2::real) ^ nat ?m"
    by (metis of_int_le_iff of_int_numeral of_int_power)
  moreover have "1 / a \<le> of_int ?c" by simp
  ultimately have "1 / a \<le> 2 ^ nat ?m" by linarith
  then have "1 \<le> 2 ^ nat ?m * a" using assms by (simp add: field_simps)
  then have "(1 / 2) ^ nat ?m \<le> a" by (simp add: field_simps)
  then have A: "2 powi expo a \<le> a"
    using False m1 by (simp add: expo_def power_int_def inverse_eq_divide)
  have "(2::real) ^ nat (?m - 1) \<le> of_int (?c - 1)"
    using lo by (metis of_int_le_iff of_int_numeral of_int_power)
  moreover have "of_int (?c - 1) < 1 / a" by linarith
  ultimately have "(2::real) ^ nat (?m - 1) < 1 / a" by linarith
  then have "2 ^ nat (?m - 1) * a < 1" using assms by (simp add: field_simps)
  then have "a < (1 / 2) ^ nat (?m - 1)" by (simp add: field_simps)
  moreover have "2 powi (expo a + 1) = (1 / 2 :: real) ^ nat (?m - 1)"
  proof (cases "?m = 1")
    case True
    with False show ?thesis by (simp add: expo_def)
  next
    case F: False
    with m1 have "1 < ?m" by simp
    then show ?thesis
      using False by (simp add: expo_def power_int_def inverse_eq_divide)
  qed
  ultimately have B: "a < 2 powi (expo a + 1)" by simp
  from A B show ?thesis ..
qed

lemma expo_mono:
  assumes "0 < a" and "a \<le> b"
  shows "expo a \<le> expo b"
proof (rule ccontr)
  assume "\<not> expo a \<le> expo b"
  then have "expo b + 1 \<le> expo a" by simp
  then have "(2::real) powi (expo b + 1) \<le> 2 powi expo a"
    by (intro power_int_increasing) simp_all
  moreover from assms have "0 < b" by simp
  ultimately show False
    using expo_bounds [OF assms(1)] expo_bounds [OF \<open>0 < b\<close>] assms(2) by linarith
qed

lemma pow2_join: "m + n = k \<Longrightarrow> (2::real) powi m * 2 powi n = 2 powi k"
proof -
  assume "m + n = k"
  then have "(2::real) powi k = 2 powi (m + n)" by (simp only:)
  also have "\<dots> = 2 powi m * 2 powi n" by (rule power_int_add) simp
  finally show ?thesis by (rule sym)
qed

lemma ulp_pos: "0 < ulp a"
  by (simp add: ulp_def)

lemma flpos_nonneg: "0 < a \<Longrightarrow> 0 \<le> flpos a"
proof -
  assume "0 < a"
  then have "of_int 0 \<le> a / ulp a" using ulp_pos [of a] by simp
  then have "0 \<le> rne (a / ulp a)" by (rule rne_ge)
  then show ?thesis using ulp_pos [of a] by (simp add: flpos_def)
qed

lemma flpos_mono:
  assumes a: "0 < a" and ab: "a \<le> b"
  shows "flpos a \<le> flpos b"
proof -
  from a ab have b: "0 < b" by simp
  let ?ea = "max (expo a) (- 1022)" and ?eb = "max (expo b) (- 1022)"
  have e: "?ea \<le> ?eb" using expo_mono [OF a ab] by (simp add: max_def)
  show ?thesis
  proof (cases "?ea = ?eb")
    case True
    then have u: "ulp a = ulp b" by (simp add: ulp_def)
    have "a / ulp b \<le> b / ulp b" using ab ulp_pos [of b] by (simp add: divide_right_mono)
    then have "rne (a / ulp b) \<le> rne (b / ulp b)" by (rule rne_mono)
    then have "real_of_int (rne (a / ulp b)) * ulp b \<le> real_of_int (rne (b / ulp b)) * ulp b"
      using ulp_pos [of b] by (simp add: mult_right_mono)
    then show ?thesis by (simp add: flpos_def u)
  next
    case False
    with e have lt: "?ea < ?eb" by linarith
    then have eb: "?eb = expo b" by (simp add: max_def split: if_splits)
    define p53 :: real where "p53 = 2 powi 53"
    define p52 :: real where "p52 = 2 powi 52"
    have i53: "p53 = of_int (2 ^ 53)" and i52: "p52 = of_int (2 ^ 52)"
      by (simp_all add: p53_def p52_def power_int_def)
    have ua: "ulp a * p53 = 2 powi (?ea + 1)"
      unfolding ulp_def p53_def by (rule pow2_join) simp
    have ub: "ulp b * p52 = 2 powi ?eb"
      unfolding ulp_def p52_def by (rule pow2_join) simp
    have "a < 2 powi (expo a + 1)" using expo_bounds [OF a] by simp
    also have "\<dots> \<le> 2 powi (?ea + 1)"
    proof (rule power_int_increasing)
      show "expo a + 1 \<le> ?ea + 1" by linarith
    qed simp
    finally have "a \<le> ulp a * p53" by (simp only: ua)
    then have "a / ulp a \<le> p53" using ulp_pos [of a] by (simp add: field_simps)
    then have "a / ulp a \<le> of_int (2 ^ 53)" by (simp only: i53)
    then have "rne (a / ulp a) \<le> 2 ^ 53" by (rule rne_le)
    then have "real_of_int (rne (a / ulp a)) \<le> of_int (2 ^ 53)" by (simp only: of_int_le_iff)
    then have "real_of_int (rne (a / ulp a)) \<le> p53" by (simp only: i53)
    then have "real_of_int (rne (a / ulp a)) * ulp a \<le> p53 * ulp a"
      using ulp_pos [of a] by (intro mult_right_mono) simp_all
    then have "flpos a \<le> ulp a * p53" by (simp add: flpos_def mult.commute)
    also have "\<dots> = 2 powi (?ea + 1)" by (rule ua)
    also have "\<dots> \<le> 2 powi ?eb"
    proof (rule power_int_increasing)
      from lt show "?ea + 1 \<le> ?eb" by linarith
    qed simp
    finally have A: "flpos a \<le> 2 powi ?eb" .
    have "2 powi ?eb \<le> b" using expo_bounds [OF b] eb by simp
    then have "ulp b * p52 \<le> b" by (simp only: ub)
    then have "p52 \<le> b / ulp b" using ulp_pos [of b] by (simp add: field_simps)
    then have "of_int (2 ^ 52) \<le> b / ulp b" by (simp only: i52)
    then have "2 ^ 52 \<le> rne (b / ulp b)" by (rule rne_ge)
    then have "of_int (2 ^ 52) \<le> real_of_int (rne (b / ulp b))" by (simp only: of_int_le_iff)
    then have "p52 \<le> real_of_int (rne (b / ulp b))" by (simp only: i52)
    then have "p52 * ulp b \<le> real_of_int (rne (b / ulp b)) * ulp b"
      using ulp_pos [of b] by (intro mult_right_mono) simp_all
    then have "ulp b * p52 \<le> flpos b" by (simp add: flpos_def mult.commute)
    then have B: "2 powi ?eb \<le> flpos b" by (simp only: ub)
    from A B show ?thesis by linarith
  qed
qed

lemma fl_mono: "a \<le> b \<Longrightarrow> fl a \<le> fl b"
proof -
  assume ab: "a \<le> b"
  consider "a = 0" | "0 < a" | "a < 0" by linarith
  then show ?thesis
  proof cases
    case 1
    with ab flpos_nonneg [of b] show ?thesis by (auto simp: fl_def)
  next
    case 2
    with ab flpos_mono [of a b] show ?thesis by (auto simp: fl_def)
  next
    case 3
    consider "b = 0" | "0 < b" | "b < 0" by linarith
    then show ?thesis
    proof cases
      case 1
      with 3 flpos_nonneg [of "- a"] show ?thesis by (auto simp: fl_def)
    next
      case 2
      with 3 flpos_nonneg [of "- a"] flpos_nonneg [of b] show ?thesis by (auto simp: fl_def)
    next
      case b: 3
      with 3 ab flpos_mono [of "- b" "- a"] show ?thesis by (auto simp: fl_def)
    qed
  qed
qed

lemma fl_0: "fl 0 = 0"
  by (simp add: fl_def)

lemma fl_nonneg: "0 \<le> x \<Longrightarrow> 0 \<le> fl x"
  using fl_mono [of 0 x] by (simp add: fl_0)

subsection \<open>Evaluating the model on numerals\<close>

lemma pow2_nonneg: "0 \<le> e \<Longrightarrow> (2::real) powi e = 2 ^ nat e"
  by (simp add: power_int_def)

lemma pow2_neg: "e < 0 \<Longrightarrow> (2::real) powi e = 1 / 2 ^ nat (- e)"
  by (simp add: power_int_def power_one_over)

lemmas fl_eval = fl_def flpos_def ulp_def expo_def rne_def Let_def compute_bitlen
  pow2_nonneg pow2_neg

text \<open>Some doubles: 0.1, 19.425, a tie at \<open>2^53 + 1\<close>, and the sum 981.9999999999999 +
  500, which is 1482.\<close>

lemma fl_examples:
  "fl (1 / 10) = 3602879701896397 / 36028797018963968"
  "fl (19425 / 1000) = 5467651422604493 / 281474976710656"
  "fl 9007199254740993 = 9007199254740992"
  "fl (- (1 / 3)) = - (6004799503160661 / 18014398509481984)"
  "fl (8637763347808255 / 8796093022208 + 500) = 1482"
  by (simp_all add: fl_eval)

lemma fl_2: "fl 2 = 2"
  by (simp add: fl_eval)

lemma fl_30: "fl 30 = 30"
  by (simp add: fl_eval)

lemma mount_eval:
  "mount t0 = \<lparr> grid = [None, None, None, None, None, None, None, None, None, None, None, None],
      score = 0, timeLeft = 30, lives = 3, isPaused = False, lastSpawnTime = 0,
      startTime = t0, pausedTime = 0, status = PLAYING, timers = [], reported = [],
      cues = [], spawnCalls = 0 \<rparr>"
  by (simp add: mount_def GRID_SIZE_def GAME_DURATION_def numeral_eq_Suc)

lemmas prog_eval = mount_eval loop_def remaining_def currentSpawnInterval_def spawnEntity_def
  getDifficulty_def maxConcurrent_def sweep_def despawn_def onGameOver_def handleWhack_def
  markHit_def elemAt_def putEntity_def emptyIndices_def currentCount_def unhit_def
  pickType_def drawOf_def fireTimers_def setIsPaused_def pauseEffect_def costsLife_def
  GAME_DURATION_def SPAWN_INTERVAL_START_def SPAWN_INTERVAL_END_def
  MOLE_DURATION_START_def MOLE_DURATION_END_def

subsection \<open>Array reads and the hit resolver\<close>

lemma elemAt_Some_iff:
  "elemAt xs k = Some x \<longleftrightarrow> 0 \<le> k \<and> nat k < length xs \<and> xs ! nat k = x"
  by (auto simp: elemAt_def)

lemma elemAt_None_iff: "elemAt xs k = None \<longleftrightarrow> k < 0 \<or> length xs \<le> nat k"
  by (auto simp: elemAt_def)

lemma markHit_unhit:
  "elemAt g index = Some (Some e) \<Longrightarrow> markHit index g = g[nat index := Some (e\<lparr> isHit := True \<rparr>)]"
  by (simp add: markHit_def)

lemma elemAt_update_same:
  "elemAt g index = Some y \<Longrightarrow> elemAt (g[nat index := x]) index = Some x"
  by (auto simp: elemAt_def split: if_splits)

lemma grid_handleWhack:
  "elemAt g index = Some (Some e') \<Longrightarrow> \<not> isHit e' \<Longrightarrow>
     grid (handleWhack now index g sc s) = markHit index (grid s)"
  by (simp add: handleWhack_def Let_def)

lemma grid_handleWhack_fresh:
  "elemAt (grid s) index = Some (Some e) \<Longrightarrow> \<not> isHit e \<Longrightarrow>
     grid (handleWhack now index (grid s) sc s) = (grid s)[nat index := Some (e\<lparr> isHit := True \<rparr>)]"
  by (simp add: grid_handleWhack markHit_unhit)

lemma handleWhack_skip:
  "(case elemAt g index of Some (Some e) \<Rightarrow> isHit e | _ \<Rightarrow> True) \<Longrightarrow>
     handleWhack now index g sc s = s"
  by (simp add: handleWhack_def split: option.splits)

subsection \<open>Counting unhit entities\<close>

lemma count_filter_update_le:
  "length (filter P (xs[k := x])) \<le> Suc (length (filter P xs))"
proof (induction xs arbitrary: k)
  case Nil
  show ?case by simp
next
  case (Cons y ys)
  show ?case
  proof (cases k)
    case 0
    then show ?thesis by simp
  next
    case (Suc j)
    with Cons [of j] show ?thesis by simp
  qed
qed

lemma count_filter_update_neg:
  "\<not> P x \<Longrightarrow> length (filter P (xs[k := x])) \<le> length (filter P xs)"
proof (induction xs arbitrary: k)
  case Nil
  show ?case by simp
next
  case (Cons y ys)
  show ?case
  proof (cases k)
    case 0
    with Cons.prems show ?thesis by simp
  next
    case (Suc j)
    with Cons.IH [OF Cons.prems, of j] show ?thesis by simp
  qed
qed

lemma count_filter_map_le:
  "(\<And>x. P (f x) \<Longrightarrow> P x) \<Longrightarrow> length (filter P (map f xs)) \<le> length (filter P xs)"
  by (induction xs) (auto simp: le_SucI)

lemma unhit_despawn: "unhit (despawn now e) \<Longrightarrow> unhit e"
  by (cases e) (auto simp: despawn_def unhit_def split: if_splits)

lemma currentCount_sweep: "currentCount (sweep now g) \<le> currentCount g"
  unfolding currentCount_def sweep_def
  by (rule count_filter_map_le) (rule unhit_despawn)

lemma length_sweep: "length (sweep now g) = length g"
  by (simp add: sweep_def)

lemma currentCount_markHit: "currentCount (markHit index g) \<le> currentCount g"
  by (auto simp: markHit_def currentCount_def unhit_def
        intro!: count_filter_update_neg split: option.splits)

lemma length_markHit: "length (markHit index g) = length g"
  by (simp add: markHit_def split: option.splits)

lemma emptyIndices_mem:
  assumes "i \<in> set (emptyIndices g)"
  shows "0 \<le> i \<and> nat i < length g \<and> g ! nat i = None"
proof -
  from assms obtain e j where z: "(e, j) \<in> set (zip g (map int [0..<length g]))"
    and i: "i = (if e = None then j else -1)" and ne: "i \<noteq> -1"
    by (auto simp: emptyIndices_def)
  from z obtain k where k: "k < length g" "g ! k = e" "j = int k"
    by (auto simp: in_set_zip)
  from i ne have "e = None" "i = j" by (auto split: if_splits)
  with k show ?thesis by simp
qed

lemma elemAt_in_set: "elemAt xs k = Some x \<Longrightarrow> x \<in> set xs"
  by (auto simp: elemAt_def split: if_splits)

lemma currentCount_putEntity:
  "(case ri of None \<Rightarrow> True | Some i \<Rightarrow> 0 \<le> i \<and> nat i < length g) \<Longrightarrow>
     currentCount (putEntity ri e g) \<le> Suc (currentCount g)"
  by (cases ri) (auto simp: putEntity_def currentCount_def count_filter_update_le)

lemma length_putEntity:
  "(case ri of None \<Rightarrow> True | Some i \<Rightarrow> 0 \<le> i \<and> nat i < length g) \<Longrightarrow>
     length (putEntity ri e g) = length g"
  by (cases ri) (auto simp: putEntity_def)

lemma getDifficulty_antimono: "a \<le> b \<Longrightarrow> getDifficulty b \<le> getDifficulty a"
proof -
  assume "a \<le> b"
  then have "fl (GAME_DURATION - b) \<le> fl (GAME_DURATION - a)" by (intro fl_mono) simp
  then have "fl (GAME_DURATION - b) / GAME_DURATION \<le> fl (GAME_DURATION - a) / GAME_DURATION"
    by (simp add: GAME_DURATION_def)
  then have "fl (fl (GAME_DURATION - b) / GAME_DURATION)
      \<le> fl (fl (GAME_DURATION - a) / GAME_DURATION)" by (rule fl_mono)
  then show ?thesis by (auto simp: getDifficulty_def min_def max_def)
qed

lemma maxConcurrent_antimono: "a \<le> b \<Longrightarrow> maxConcurrent b \<le> maxConcurrent a"
  unfolding maxConcurrent_def
  by (intro add_left_mono floor_mono fl_mono mult_right_mono getDifficulty_antimono) simp_all

lemma maxConcurrent_bounds: "1 \<le> maxConcurrent a \<and> maxConcurrent a \<le> 3"
proof -
  have "0 \<le> getDifficulty a" "getDifficulty a \<le> 1"
    by (auto simp: getDifficulty_def)
  then have "0 \<le> getDifficulty a * 2" "getDifficulty a * 2 \<le> 2" by simp_all
  then have "0 \<le> fl (getDifficulty a * 2)" "fl (getDifficulty a * 2) \<le> 2"
    using fl_mono [of "getDifficulty a * 2" 2] by (simp_all add: fl_nonneg fl_2)
  then have "0 \<le> \<lfloor>fl (getDifficulty a * 2)\<rfloor>" "\<lfloor>fl (getDifficulty a * 2)\<rfloor> \<le> 2"
    by (simp_all add: le_floor_iff floor_le_iff)
  then show ?thesis by (simp add: maxConcurrent_def)
qed

text \<open>What a call of \<open>spawnEntity\<close> can do to the state it updates.\<close>

lemma spawnEntity_cases:
  "spawnEntity d g tleft s = s \<or>
   (\<exists>i. int (currentCount g) < maxConcurrent tleft \<and>
        elemAt (emptyIndices g) \<lfloor>fl (pick d * real (length (emptyIndices g)))\<rfloor> = Some i \<and>
        spawnEntity d g tleft s =
          s\<lparr> grid := putEntity (Some i)
                 \<lparr> ident = fresh d, type = pickType (roll d), spawnTime = clock d,
                   duration = fl (MOLE_DURATION_START
                     - fl (getDifficulty tleft
                           * fl (MOLE_DURATION_START - MOLE_DURATION_END))),
                   isHit = False \<rparr> (grid s) \<rparr>)"
  by (cases "elemAt (emptyIndices g) \<lfloor>fl (pick d * real (length (emptyIndices g)))\<rfloor>")
     (auto simp: spawnEntity_def Let_def maxConcurrent_def putEntity_def)

lemma spawnEntity_other_fields:
  "score (spawnEntity d g tleft s) = score s"
  "lives (spawnEntity d g tleft s) = lives s"
  "timeLeft (spawnEntity d g tleft s) = timeLeft s"
  "isPaused (spawnEntity d g tleft s) = isPaused s"
  "startTime (spawnEntity d g tleft s) = startTime s"
  "pausedTime (spawnEntity d g tleft s) = pausedTime s"
  "status (spawnEntity d g tleft s) = status s"
  "timers (spawnEntity d g tleft s) = timers s"
  "reported (spawnEntity d g tleft s) = reported s"
  "lastSpawnTime (spawnEntity d g tleft s) = lastSpawnTime s"
  "spawnCalls (spawnEntity d g tleft s) = spawnCalls s"
  by (simp_all add: spawnEntity_def Let_def)

lemma spawnEntity_count:
  assumes "int (currentCount g) \<le> maxConcurrent tleft"
    and "currentCount (grid s) \<le> currentCount g"
    and "length (grid s) = length g"
  shows "int (currentCount (grid (spawnEntity d g tleft s))) \<le> maxConcurrent tleft"
  using spawnEntity_cases [of d g tleft s]
proof (elim disjE exE conjE)
  assume "spawnEntity d g tleft s = s"
  with assms show ?thesis by simp
next
  fix i
  assume lt: "int (currentCount g) < maxConcurrent tleft"
    and i: "elemAt (emptyIndices g) \<lfloor>fl (pick d * real (length (emptyIndices g)))\<rfloor> = Some i"
    and eq: "spawnEntity d g tleft s =
          s\<lparr> grid := putEntity (Some i)
                 \<lparr> ident = fresh d, type = pickType (roll d), spawnTime = clock d,
                   duration = fl (MOLE_DURATION_START
                     - fl (getDifficulty tleft
                           * fl (MOLE_DURATION_START - MOLE_DURATION_END))),
                   isHit = False \<rparr> (grid s) \<rparr>"
  from i have "i \<in> set (emptyIndices g)" by (rule elemAt_in_set)
  then have "0 \<le> i \<and> nat i < length (grid s)"
    using emptyIndices_mem [of i g] assms(3) by simp
  then have "currentCount (grid (spawnEntity d g tleft s)) \<le> Suc (currentCount (grid s))"
    unfolding eq by (simp add: currentCount_putEntity)
  with assms(2) lt show ?thesis by linarith
qed


subsection \<open>Fields the handlers leave alone\<close>

lemma onGameOver_fields:
  "grid (onGameOver sc s) = grid s"
  "score (onGameOver sc s) = score s"
  "lives (onGameOver sc s) = lives s"
  "timeLeft (onGameOver sc s) = timeLeft s"
  "isPaused (onGameOver sc s) = isPaused s"
  "startTime (onGameOver sc s) = startTime s"
  "pausedTime (onGameOver sc s) = pausedTime s"
  "timers (onGameOver sc s) = timers s"
  "reported (onGameOver sc s) = reported s @ [sc]"
  "status (onGameOver sc s) = GAME_OVER"
  by (simp_all add: onGameOver_def)

lemma foldl_onGameOver_fields:
  "grid (foldl (\<lambda>a (t, sc). onGameOver sc a) s xs) = grid s"
  "score (foldl (\<lambda>a (t, sc). onGameOver sc a) s xs) = score s"
  "lives (foldl (\<lambda>a (t, sc). onGameOver sc a) s xs) = lives s"
  "timeLeft (foldl (\<lambda>a (t, sc). onGameOver sc a) s xs) = timeLeft s"
  "isPaused (foldl (\<lambda>a (t, sc). onGameOver sc a) s xs) = isPaused s"
  "startTime (foldl (\<lambda>a (t, sc). onGameOver sc a) s xs) = startTime s"
  "pausedTime (foldl (\<lambda>a (t, sc). onGameOver sc a) s xs) = pausedTime s"
  "timers (foldl (\<lambda>a (t, sc). onGameOver sc a) s xs) = timers s"
  "reported (foldl (\<lambda>a (t, sc). onGameOver sc a) s xs) = reported s @ map snd xs"
  by (induction xs arbitrary: s; simp add: onGameOver_fields split_beta)+

lemma fireTimers_fields:
  "grid (fireTimers now s) = grid s"
  "score (fireTimers now s) = score s"
  "lives (fireTimers now s) = lives s"
  "timeLeft (fireTimers now s) = timeLeft s"
  "isPaused (fireTimers now s) = isPaused s"
  "startTime (fireTimers now s) = startTime s"
  "pausedTime (fireTimers now s) = pausedTime s"
  by (simp_all add: fireTimers_def foldl_onGameOver_fields)

lemma handleWhack_fields:
  "timeLeft (handleWhack now index g sc s) = timeLeft s"
  "isPaused (handleWhack now index g sc s) = isPaused s"
  "startTime (handleWhack now index g sc s) = startTime s"
  "pausedTime (handleWhack now index g sc s) = pausedTime s"
  "status (handleWhack now index g sc s) = status s"
  "reported (handleWhack now index g sc s) = reported s"
  "length (grid (handleWhack now index g sc s)) = length (grid s)"
  "lastSpawnTime (handleWhack now index g sc s) = lastSpawnTime s"
  "spawnCalls (handleWhack now index g sc s) = spawnCalls s"
  by (simp_all add: handleWhack_def Let_def length_markHit split: option.splits)

lemma grid_handleWhack_cases:
  "grid (handleWhack now index g sc s) = grid s \<or>
   grid (handleWhack now index g sc s) = markHit index (grid s)"
  by (simp add: handleWhack_def Let_def split: option.splits)

lemma currentCount_handleWhack:
  "currentCount (grid (handleWhack now index g sc s)) \<le> currentCount (grid s)"
  using grid_handleWhack_cases [of now index g sc s] currentCount_markHit [of index "grid s"]
  by auto

lemma lives_handleWhack: "lives s - 1 \<le> lives (handleWhack now index g sc s)"
  by (simp add: handleWhack_def Let_def split: option.splits)

lemma lives_handleWhack_free:
  "\<not> costsLife g index \<Longrightarrow> lives (handleWhack now index g sc s) = lives s"
  by (auto simp: handleWhack_def costsLife_def Let_def split: option.splits)

lemma lives_handleWhack_le: "lives (handleWhack now index g sc s) \<le> lives s"
  by (simp add: handleWhack_def Let_def split: option.splits)

lemma loop_score_lives:
  "score (loop now d s) = score s" "lives (loop now d s) = lives s"
  by (simp_all add: loop_def Let_def onGameOver_fields spawnEntity_other_fields)

lemma loop_paused: "isPaused s \<Longrightarrow> loop now d s = s"
  by (simp add: loop_def)

lemma loop_expired:
  "\<not> isPaused s \<Longrightarrow> remaining now s \<le> 0 \<Longrightarrow>
     loop now d s = onGameOver (score s) (s\<lparr> timeLeft := remaining now s \<rparr>)"
  by (simp add: loop_def Let_def)

lemma loop_running:
  "\<not> isPaused s \<Longrightarrow> 0 < remaining now s \<Longrightarrow>
     loop now d s =
       (if now - lastSpawnTime s > currentSpawnInterval (remaining now s)
        then (spawnEntity d (grid s) (timeLeft s)
                (s\<lparr> timeLeft := remaining now s, grid := sweep now (grid s) \<rparr>))
               \<lparr> lastSpawnTime := now, spawnCalls := Suc (spawnCalls s) \<rparr>
        else s\<lparr> timeLeft := remaining now s, grid := sweep now (grid s) \<rparr>)"
  by (simp add: loop_def Let_def)

lemma loop_time_fields:
  "isPaused (loop now d s) = isPaused s"
  "startTime (loop now d s) = startTime s"
  "pausedTime (loop now d s) = pausedTime s"
  by (simp_all add: loop_def Let_def onGameOver_fields spawnEntity_other_fields)

lemma loop_timeLeft:
  "timeLeft (loop now d s) = (if isPaused s then timeLeft s else remaining now s)"
  by (simp add: loop_def Let_def onGameOver_fields spawnEntity_other_fields)

lemma remaining_antimono: "a \<le> b \<Longrightarrow> remaining b s \<le> remaining a s"
proof -
  assume "a \<le> b"
  then have "fl ((a - startTime s) / 1000) \<le> fl ((b - startTime s) / 1000)"
    by (intro fl_mono) (simp add: divide_right_mono)
  then have "fl (GAME_DURATION - fl ((b - startTime s) / 1000))
      \<le> fl (GAME_DURATION - fl ((a - startTime s) / 1000))"
    by (intro fl_mono) simp
  then show ?thesis by (auto simp: remaining_def max_def)
qed

lemma remaining_nonneg: "0 \<le> remaining now s"
  by (simp add: remaining_def)

lemma remaining_shift:
  "remaining b (s\<lparr> startTime := startTime s + (b - a), pausedTime := 0 \<rparr>) = remaining a s"
  by (simp add: remaining_def)


subsection \<open>The round invariant\<close>

lemma loop_countInv:
  assumes c: "countInv s" and t: "\<not> isPaused s \<Longrightarrow> remaining now s \<le> timeLeft s"
  shows "countInv (loop now d s)"
proof (cases "isPaused s")
  case True
  with c show ?thesis by (simp add: loop_paused)
next
  case False
  note cap = maxConcurrent_antimono [OF t [OF False]]
  from c have c': "int (currentCount (grid s)) \<le> maxConcurrent (timeLeft s)"
    by (simp add: countInv_def)
  show ?thesis
  proof (cases "remaining now s \<le> 0")
    case True
    with False c' cap show ?thesis
      by (simp add: loop_expired countInv_def onGameOver_fields)
  next
    case run: False
    let ?s2 = "s\<lparr> timeLeft := remaining now s, grid := sweep now (grid s) \<rparr>"
    have sw: "int (currentCount (sweep now (grid s))) \<le> maxConcurrent (timeLeft s)"
      using c' currentCount_sweep [of now "grid s"] by linarith
    have sp: "int (currentCount (grid (spawnEntity d (grid s) (timeLeft s) ?s2)))
                \<le> maxConcurrent (timeLeft s)"
      by (rule spawnEntity_count [OF c']) (simp_all add: currentCount_sweep length_sweep)
    from False run sw sp cap show ?thesis
      by (simp add: loop_running countInv_def spawnEntity_other_fields)
  qed
qed

lemma loop_timeInv:
  assumes "timeInv t s" and "t \<le> now"
  shows "timeInv now (loop now d s)"
proof (cases "isPaused s")
  case True
  with assms show ?thesis by (simp add: loop_paused timeInv_def)
next
  case False
  then show ?thesis
    by (simp add: timeInv_def loop_time_fields loop_timeLeft remaining_def)
qed

lemma timeInv_cong:
  "isPaused s' = isPaused s \<Longrightarrow> pausedTime s' = pausedTime s \<Longrightarrow>
   startTime s' = startTime s \<Longrightarrow> timeLeft s' = timeLeft s \<Longrightarrow>
     timeInv t s' = timeInv t s"
  by (simp add: timeInv_def remaining_def)

lemma step_roundInv:
  assumes inv: "roundInv t s" and le: "t \<le> time_of e"
  shows "roundInv (time_of e) (step e s) \<and> timeLeft (step e s) \<le> timeLeft s"
proof -
  from inv have pos: "0 < t" and ti: "timeInv t s" and ci: "countInv s"
    by (simp_all add: roundInv_def)
  from pos le have pos': "0 < time_of e" by simp
  have keep: "timeInv (time_of e) s"
    using ti le remaining_antimono [OF le, of s] by (auto simp: timeInv_def)
  show ?thesis
  proof (cases e)
    case (Tick now d)
    have up: "\<not> isPaused s \<Longrightarrow> remaining now s \<le> timeLeft s"
      using keep Tick by (simp add: timeInv_def)
    have "timeLeft (loop now d s) \<le> timeLeft s"
      using up by (simp add: loop_timeLeft)
    moreover have "timeInv now (loop now d s)"
      using ti le Tick by (intro loop_timeInv [of t]) simp_all
    moreover have "countInv (loop now d s)"
      using ci up by (rule loop_countInv)
    ultimately show ?thesis
      using Tick pos' inv keep by (simp add: roundInv_def)
  next
    case (Whack now i)
    let ?s' = "handleWhack now i (grid s) (score s) s"
    have "countInv ?s'"
      using ci currentCount_handleWhack [of now i "grid s" "score s" s]
      by (simp add: countInv_def handleWhack_fields)
    moreover have "timeInv now ?s'"
      using keep Whack timeInv_cong [of ?s' s now]
      by (simp add: handleWhack_fields)
    ultimately show ?thesis
      using Whack pos' ci keep by (simp add: roundInv_def handleWhack_fields)
  next
    case (WhackStale now i g sc)
    let ?s' = "handleWhack now i g sc s"
    have "countInv ?s'"
      using ci currentCount_handleWhack [of now i g sc s]
      by (simp add: countInv_def handleWhack_fields)
    moreover have "timeInv now ?s'"
      using keep WhackStale timeInv_cong [of ?s' s now]
      by (simp add: handleWhack_fields)
    ultimately show ?thesis
      using WhackStale pos' ci keep by (simp add: roundInv_def handleWhack_fields)
  next
    case (SetPaused now b)
    have "timeInv now (setIsPaused now b s)"
      using keep pos' SetPaused
      by (auto simp: setIsPaused_def pauseEffect_def timeInv_def remaining_def Let_def)
    moreover have "countInv (setIsPaused now b s)"
      using ci by (simp add: setIsPaused_def pauseEffect_def countInv_def Let_def)
    moreover have "timeLeft (setIsPaused now b s) = timeLeft s"
      by (simp add: setIsPaused_def pauseEffect_def Let_def)
    ultimately show ?thesis
      using SetPaused pos' ci keep by (simp add: roundInv_def)
  next
    case (Timeout now)
    have "timeInv now (fireTimers now s)"
      using keep Timeout timeInv_cong [of "fireTimers now s" s now]
      by (simp add: fireTimers_fields)
    moreover have "countInv (fireTimers now s)"
      using ci by (simp add: countInv_def fireTimers_fields)
    ultimately show ?thesis
      using Timeout pos' by (simp add: roundInv_def fireTimers_fields)
  qed
qed

lemma run_roundInv:
  "roundInv t s \<Longrightarrow> timed t (es @ es') \<Longrightarrow>
     \<exists>t'. roundInv t' (run es s) \<and> timed t' es' \<and> timeLeft (run es s) \<le> timeLeft s"
proof (induction es arbitrary: t s)
  case Nil
  then show ?case by auto
next
  case (Cons e es)
  from Cons.prems have le: "t \<le> time_of e" and rest: "timed (time_of e) (es @ es')"
    by simp_all
  from step_roundInv [OF Cons.prems(1) le]
  have inv': "roundInv (time_of e) (step e s)" and tl: "timeLeft (step e s) \<le> timeLeft s"
    by simp_all
  from Cons.IH [OF inv' rest] tl show ?case by auto
qed

lemma mount_roundInv: "0 < t0 \<Longrightarrow> roundInv t0 (mount t0)"
  by (simp add: roundInv_def timeInv_def countInv_def mount_def remaining_def
        currentCount_def unhit_def maxConcurrent_def getDifficulty_def
        GAME_DURATION_def GRID_SIZE_def fl_0 fl_30)

lemma run_append: "run (es @ es') s = run es' (run es s)"
  by (induction es arbitrary: s) simp_all

lemma spawnEntity_keeps_occupied:
  assumes occ: "g ! i \<noteq> None" and len: "length (grid s) = length g"
  shows "grid (spawnEntity d g tleft s) ! i = grid s ! i"
  using spawnEntity_cases [of d g tleft s]
proof (elim disjE exE conjE)
  assume "spawnEntity d g tleft s = s"
  then show ?thesis by simp
next
  fix k
  assume k: "elemAt (emptyIndices g) \<lfloor>fl (pick d * real (length (emptyIndices g)))\<rfloor> = Some k"
    and eq: "spawnEntity d g tleft s =
          s\<lparr> grid := putEntity (Some k)
                 \<lparr> ident = fresh d, type = pickType (roll d), spawnTime = clock d,
                   duration = fl (MOLE_DURATION_START
                     - fl (getDifficulty tleft
                           * fl (MOLE_DURATION_START - MOLE_DURATION_END))),
                   isHit = False \<rparr> (grid s) \<rparr>"
  from k have "k \<in> set (emptyIndices g)" by (rule elemAt_in_set)
  then have "0 \<le> k \<and> nat k < length g \<and> g ! nat k = None" by (rule emptyIndices_mem)
  with occ len have "nat k \<noteq> i" "nat k < length (grid s)" "\<not> k < 0" by auto
  then show ?thesis unfolding eq by (simp add: putEntity_def)
qed

lemma handleWhack_fresh_twice:
  "handleWhack now' index (grid (handleWhack now index (grid s) (score s) s))
      (score (handleWhack now index (grid s) (score s) s))
      (handleWhack now index (grid s) (score s) s)
     = handleWhack now index (grid s) (score s) s"
proof (cases "elemAt (grid s) index")
  case None
  then show ?thesis by (simp add: handleWhack_def)
next
  case (Some slot)
  show ?thesis
  proof (cases slot)
    case None
    with Some show ?thesis by (simp add: handleWhack_def)
  next
    case (Some e)
    note slot = \<open>elemAt (grid s) index = Some slot\<close> [unfolded Some]
    show ?thesis
    proof (cases "isHit e")
      case True
      with slot show ?thesis by (simp add: handleWhack_def)
    next
      case False
      have "elemAt (grid (handleWhack now index (grid s) (score s) s)) index
              = Some (Some (e\<lparr> isHit := True \<rparr>))"
        using slot False by (simp add: grid_handleWhack_fresh elemAt_update_same)
      then show ?thesis by (intro handleWhack_skip) simp
    qed
  qed
qed

subsection \<open>Lives and paused ticks along a trace\<close>

lemma step_lives_alive:
  assumes "0 \<le> lives s"
    and "case e of Whack t i \<Rightarrow> costsLife (grid s) i \<longrightarrow> 0 < lives s
         | WhackStale t i g sc \<Rightarrow> costsLife g i \<longrightarrow> 0 < lives s
         | _ \<Rightarrow> True"
  shows "0 \<le> lives (step e s)"
proof (cases e)
  case (Tick t d)
  with assms show ?thesis by (simp add: loop_score_lives)
next
  case (Whack t i)
  show ?thesis
  proof (cases "costsLife (grid s) i")
    case True
    with assms Whack lives_handleWhack [of s t i "grid s" "score s"] show ?thesis by simp
  next
    case False
    with assms Whack show ?thesis by (simp add: lives_handleWhack_free)
  qed
next
  case (WhackStale t i g sc)
  show ?thesis
  proof (cases "costsLife g i")
    case True
    with assms WhackStale lives_handleWhack [of s t i g sc] show ?thesis by simp
  next
    case False
    with assms WhackStale show ?thesis by (simp add: lives_handleWhack_free)
  qed
next
  case (SetPaused t b)
  with assms show ?thesis by (simp add: setIsPaused_def pauseEffect_def Let_def)
next
  case (Timeout t)
  with assms show ?thesis by (simp add: fireTimers_fields)
qed

lemma run_lives_alive:
  "0 \<le> lives s \<Longrightarrow> bombsAlive es s \<Longrightarrow> 0 \<le> lives (run es s)"
proof (induction es arbitrary: s)
  case Nil
  then show ?case by simp
next
  case (Cons e es)
  have "0 \<le> lives (step e s)"
    using Cons.prems by (intro step_lives_alive) (cases e; simp)+
  moreover have "bombsAlive es (step e s)"
    using Cons.prems(2) by (cases e) simp_all
  ultimately show ?case using Cons.IH by simp
qed

lemma bombsAlive_take: "bombsAlive es s \<Longrightarrow> bombsAlive (take n es) s"
proof (induction es arbitrary: s n)
  case Nil
  then show ?case by simp
next
  case (Cons e es)
  show ?case
  proof (cases n)
    case 0
    then show ?thesis by simp
  next
    case (Suc m)
    with Cons show ?thesis by (cases e) simp_all
  qed
qed

lemma paused_ticks_idle:
  "isPaused s \<Longrightarrow> foldl (\<lambda>a (t, d). loop t d a) s tds = s"
  by (induction tds) (auto simp: loop_paused)

section \<open>The claims\<close>

text \<open>
  Claim C1 asks that \<open>onGameOver\<close> be invoked exactly once per round. The code invokes
  it twice when the time runs out. In \<open>quietRound\<close> the tick at 33000 finds no time left:
  it sets \<open>timeLeft\<close> from 27 to 0, reports the score 4 and returns without requesting a
  frame. \<open>timeLeft\<close> is a dependency of the effect that requests the frame, so the effect
  of the next render requests one, and the component is still mounted while it fades out:
  the frame callback runs again, finds no time left again, and reports the score 4 a second
  time. The same missing latch lets two bombs hit within the 500 ms deferral
  (\<open>doubleBombRound\<close>) set two timers, both of which report.
\<close>

theorem onGameOver_called_twice:
  "timed 1000 quietRound
   \<and> timeLeft (run (take 9 quietRound) (mount 1000)) = 27
   \<and> reported (run (take 9 quietRound) (mount 1000)) = []
   \<and> timeLeft (run (take 10 quietRound) (mount 1000)) = 0
   \<and> reported (run (take 10 quietRound) (mount 1000)) = [4]
   \<and> reported (run quietRound (mount 1000)) = [4, 4]
   \<and> timed 1000 doubleBombRound
   \<and> reported (run doubleBombRound (mount 1000)) = [0, 0]"
  by (simp add: quietRound_def doubleBombRound_def prog_eval fl_eval)

text \<open>
  Claim C2, as stated, does not hold: lives is decremented without a floor, and the round
  goes on for 500 ms after lives has reached 0. In the round \<open>doubleBombRound\<close> a fourth
  bomb is hit 100 ms after the third, and lives ends at -1.
\<close>

theorem lives_below_zero:
  "timed 1000 doubleBombRound \<and> lives (run doubleBombRound (mount 1000)) = - 1"
  by (simp add: doubleBombRound_def prog_eval fl_eval)

text \<open>
  Claim C2, amended. From the initial state (lives = 3), along every sequence of ticks, hits
  (from the latest or from an earlier render), pause switches and timer expiries in which
  each hit that costs a life (the invoked callback sees an unhit bomb in the slot) is
  resolved while at least one life is left, lives never goes below 0; hits that cost no life
  are unrestricted. One hit lowers lives by at most one and never raises it, a hit that
  costs no life leaves it unchanged, and so does a tick.
\<close>

theorem lives_nonneg_while_alive:
  "(bombsAlive es (mount t0) \<longrightarrow> (\<forall>n. 0 \<le> lives (run (take n es) (mount t0))))
   \<and> lives s - 1 \<le> lives (handleWhack now index g sc s)
   \<and> lives (handleWhack now index g sc s) \<le> lives s
   \<and> (\<not> costsLife g index \<longrightarrow> lives (handleWhack now index g sc s) = lives s)
   \<and> lives (loop now d s) = lives s"
proof -
  have "bombsAlive es (mount t0) \<longrightarrow> (\<forall>n. 0 \<le> lives (run (take n es) (mount t0)))"
  proof (intro impI allI)
    fix n
    assume "bombsAlive es (mount t0)"
    then have "bombsAlive (take n es) (mount t0)" by (rule bombsAlive_take)
    moreover have "0 \<le> lives (mount t0)" by (simp add: mount_def)
    ultimately show "0 \<le> lives (run (take n es) (mount t0))"
      by (intro run_lives_alive)
  qed
  with lives_handleWhack [of s now index g sc] lives_handleWhack_le [of now index g sc s]
    lives_handleWhack_free [of g index now sc s] loop_score_lives(2) [of now d s]
  show ?thesis by blast
qed

theorem lives_nonneg_while_alive_witness:
  "bombsAlive deferralRound (mount 1000)
   \<and> 0 \<le> lives (run (take 9 deferralRound) (mount 1000))
   \<and> lives (run (take 7 deferralRound) (mount 1000)) = 0
   \<and> score (run (take 7 deferralRound) (mount 1000)) = 0
   \<and> lives (run (take 8 deferralRound) (mount 1000)) = 0
   \<and> score (run (take 8 deferralRound) (mount 1000)) = 1"
proof -
  have h: "bombsAlive deferralRound (mount 1000)"
    by (simp add: deferralRound_def prog_eval fl_eval)
  have v: "lives (run (take 7 deferralRound) (mount 1000)) = 0
   \<and> score (run (take 7 deferralRound) (mount 1000)) = 0
   \<and> lives (run (take 8 deferralRound) (mount 1000)) = 0
   \<and> score (run (take 8 deferralRound) (mount 1000)) = 1"
    by (simp add: deferralRound_def prog_eval fl_eval)
  from lives_nonneg_while_alive [of deferralRound 1000] h
  have "0 \<le> lives (run (take 9 deferralRound) (mount 1000))" by blast
  with h v show ?thesis by blast
qed

text \<open>
  Claim C3 asks that the hit resolver change nothing when the entity in the slot is already
  hit, so that a second invocation on the same entity leaves score and lives alone. The
  guard of \<open>handleWhack\<close> reads the grid its closure captured, not the grid of the moment.
  The exiting element of a hole keeps the callback of the render in which its mole was unhit;
  invoked a second time (a second press, or the mouse event that follows a touch), that
  callback still sees the mole unhit, passes the guard and scores again: for the mole of
  \<open>moleUp\<close> the score goes 0, 1, 2, and for the bomb of \<open>bombUp\<close> lives goes 3, 2, 1,
  although after the first invocation the entity in the slot is hit.
\<close>

theorem handleWhack_stale_closure_scores_twice:
  "elemAt (grid moleUp) 0 =
     Some (Some \<lparr> ident = ''a'', type = Mole, spawnTime = 1016, duration = 1500, isHit = False \<rparr>)
   \<and> score moleUp = 0
   \<and> score (handleWhack 1100 0 (grid moleUp) (score moleUp) moleUp) = 1
   \<and> elemAt (grid (handleWhack 1100 0 (grid moleUp) (score moleUp) moleUp)) 0 =
     Some (Some \<lparr> ident = ''a'', type = Mole, spawnTime = 1016, duration = 1500, isHit = True \<rparr>)
   \<and> score (handleWhack 1200 0 (grid moleUp) (score moleUp)
              (handleWhack 1100 0 (grid moleUp) (score moleUp) moleUp)) = 2
   \<and> lives bombUp = 3
   \<and> lives (handleWhack 1100 0 (grid bombUp) (score bombUp) bombUp) = 2
   \<and> lives (handleWhack 1200 0 (grid bombUp) (score bombUp)
              (handleWhack 1100 0 (grid bombUp) (score bombUp) bombUp)) = 1"
  by (simp add: moleUp_def bombUp_def prog_eval fl_eval)

text \<open>
  Claim C4. In every state reached from a mount at a positive clock value by events whose
  clock values do not decrease, the number of slots holding an unhit entity is at most
  \<open>maxConcurrent = 1 + floor(difficulty * 2)\<close>, the difficulty being
  \<open>clamp((30 - timeLeft) / 30, 0, 1)\<close> as the code computes it in doubles; and
  \<open>spawnEntity\<close> changes nothing when the count it reads is already at or above the cap.
\<close>

theorem concurrency_cap:
  "(0 < t0 \<and> timed t0 es \<longrightarrow>
      int (currentCount (grid (run es (mount t0))))
        \<le> maxConcurrent (timeLeft (run es (mount t0))))
   \<and> maxConcurrent tleft
        = 1 + \<lfloor>fl (min (max (fl (fl (GAME_DURATION - tleft) / GAME_DURATION)) 0) 1 * 2)\<rfloor>
   \<and> (int (currentCount g) \<ge> maxConcurrent tleft \<longrightarrow> spawnEntity d g tleft s = s)"
proof -
  have "0 < t0 \<and> timed t0 es \<longrightarrow>
      int (currentCount (grid (run es (mount t0))))
        \<le> maxConcurrent (timeLeft (run es (mount t0)))"
  proof (intro impI, elim conjE)
    assume pos: "0 < t0" and tm: "timed t0 es"
    from tm have "timed t0 (es @ [])" by simp
    from run_roundInv [OF mount_roundInv [OF pos] this]
    obtain t' where "roundInv t' (run es (mount t0))" by blast
    then show "int (currentCount (grid (run es (mount t0))))
        \<le> maxConcurrent (timeLeft (run es (mount t0)))"
      by (simp add: roundInv_def countInv_def)
  qed
  moreover have "maxConcurrent tleft
        = 1 + \<lfloor>fl (min (max (fl (fl (GAME_DURATION - tleft) / GAME_DURATION)) 0) 1 * 2)\<rfloor>"
    by (simp add: maxConcurrent_def getDifficulty_def)
  moreover have "int (currentCount g) \<ge> maxConcurrent tleft \<longrightarrow> spawnEntity d g tleft s = s"
    by (simp add: spawnEntity_def maxConcurrent_def Let_def)
  ultimately show ?thesis by blast
qed

theorem concurrency_cap_witness:
  "(0::real) < 1000 \<and> timed 1000 (take 6 doubleBombRound)
   \<and> int (currentCount (grid (run (take 6 doubleBombRound) (mount 1000))))
        \<le> maxConcurrent (timeLeft (run (take 6 doubleBombRound) (mount 1000)))
   \<and> currentCount (grid (run (take 6 doubleBombRound) (mount 1000))) = 2
   \<and> int (currentCount (grid (run (take 6 doubleBombRound) (mount 1000))))
        \<ge> maxConcurrent (timeLeft (run (take 6 doubleBombRound) (mount 1000)))
   \<and> spawnEntity (drawOf 0.9 ''e'' 17750) (grid (run (take 6 doubleBombRound) (mount 1000)))
        (timeLeft (run (take 6 doubleBombRound) (mount 1000)))
        (run (take 6 doubleBombRound) (mount 1000))
       = run (take 6 doubleBombRound) (mount 1000)"
proof -
  let ?s = "run (take 6 doubleBombRound) (mount 1000)"
  have h: "(0::real) < 1000 \<and> timed 1000 (take 6 doubleBombRound)"
    by (simp add: doubleBombRound_def)
  have c: "currentCount (grid ?s) = 2"
    by (simp add: doubleBombRound_def prog_eval fl_eval)
  have m: "int (currentCount (grid ?s)) \<ge> maxConcurrent (timeLeft ?s)"
    by (simp add: doubleBombRound_def prog_eval fl_eval)
  note w = concurrency_cap [of 1000 "take 6 doubleBombRound" "timeLeft ?s" "grid ?s"
      "drawOf 0.9 ''e'' 17750" ?s]
  from w h have "int (currentCount (grid ?s)) \<le> maxConcurrent (timeLeft ?s)" by blast
  moreover from w m have
    "spawnEntity (drawOf 0.9 ''e'' 17750) (grid ?s) (timeLeft ?s) ?s = ?s" by blast
  ultimately show ?thesis using h c m by blast
qed

text \<open>
  Claim C5, as stated, clears a hit entity as soon as \<open>now - spawnTime\<close> exceeds
  \<open>lifetimeMs + 500\<close>. The code compares with the sum as a double. In \<open>roundingRound\<close>
  the second tick spawns a mole whose stored duration is the double 981.9999999999999; the
  mole is hit, and the tick at 22507 sweeps it at age 1482. The age exceeds the duration plus
  500, but the double sum is 1482, the comparison \<open>1482 > 1482\<close> fails, and the slot is
  not cleared.
\<close>

theorem sweep_keeps_at_rounded_sum:
  "grid (run roundingRound (mount 1000)) ! 1 =
     Some \<lparr> ident = ''b'', type = Mole, spawnTime = 21025,
            duration = 8637763347808255 / 8796093022208, isHit = True \<rparr>
   \<and> 22507 - (21025::real) > 8637763347808255 / 8796093022208 + 500
   \<and> \<not> isPaused (run roundingRound (mount 1000))
   \<and> 0 < remaining 22507 (run roundingRound (mount 1000))
   \<and> despawn 22507
        (Some \<lparr> ident = ''b'', type = Mole, spawnTime = 21025,
                duration = 8637763347808255 / 8796093022208, isHit = True \<rparr>) =
        Some \<lparr> ident = ''b'', type = Mole, spawnTime = 21025,
               duration = 8637763347808255 / 8796093022208, isHit = True \<rparr>
   \<and> grid (loop 22507 (drawOf 0.5 ''c'' 22507) (run roundingRound (mount 1000))) ! 1 =
        Some \<lparr> ident = ''b'', type = Mole, spawnTime = 21025,
               duration = 8637763347808255 / 8796093022208, isHit = True \<rparr>"
  by (simp add: roundingRound_def prog_eval fl_eval)

text \<open>
  Claim C5, amended. Swept at time \<open>now\<close>, an occupied slot is cleared if its entity is hit
  and \<open>now - spawnTime\<close> exceeds the sum \<open>duration + 500\<close> as a double (the exact sum
  rounded to the nearest double), cleared if its entity is unhit and
  \<open>now - spawnTime > duration\<close>, and left as it is otherwise; the sweep works slot by
  slot and keeps the length; within a running tick the slot that was occupied at the start
  of the tick ends up as the sweep leaves it; and a tick never changes score or lives,
  whatever the kind of the entities.
\<close>

theorem sweep_clears_expired_only:
  "(isHit e \<and> now - spawnTime e > fl (duration e + 500) \<longrightarrow> despawn now (Some e) = None)
   \<and> (\<not> isHit e \<and> now - spawnTime e > duration e \<longrightarrow> despawn now (Some e) = None)
   \<and> (\<not> (isHit e \<and> now - spawnTime e > fl (duration e + 500))
        \<and> \<not> (\<not> isHit e \<and> now - spawnTime e > duration e)
        \<longrightarrow> despawn now (Some e) = Some e)
   \<and> despawn now None = None
   \<and> length (sweep now g) = length g
   \<and> (\<forall>i < length g. sweep now g ! i = despawn now (g ! i))
   \<and> (\<not> isPaused s \<and> 0 < remaining now s \<and> i < length (grid s) \<and> grid s ! i = Some e
        \<longrightarrow> grid (loop now d s) ! i = despawn now (Some e))
   \<and> score (loop now d s) = score s \<and> lives (loop now d s) = lives s"
proof -
  have a: "isHit e \<and> now - spawnTime e > fl (duration e + 500) \<longrightarrow> despawn now (Some e) = None"
    by (simp add: despawn_def)
  have b: "\<not> isHit e \<and> now - spawnTime e > duration e \<longrightarrow> despawn now (Some e) = None"
    by (simp add: despawn_def)
  have c: "\<not> (isHit e \<and> now - spawnTime e > fl (duration e + 500))
        \<and> \<not> (\<not> isHit e \<and> now - spawnTime e > duration e)
        \<longrightarrow> despawn now (Some e) = Some e"
    by (auto simp: despawn_def)
  have n: "despawn now None = None" by (simp add: despawn_def)
  have l: "length (sweep now g) = length g" by (rule length_sweep)
  have m: "\<forall>i < length g. sweep now g ! i = despawn now (g ! i)"
    by (simp add: sweep_def)
  have lp: "\<not> isPaused s \<and> 0 < remaining now s \<and> i < length (grid s) \<and> grid s ! i = Some e
        \<longrightarrow> grid (loop now d s) ! i = despawn now (Some e)"
  proof (intro impI, elim conjE)
    assume up: "\<not> isPaused s" and run: "0 < remaining now s"
      and i: "i < length (grid s)" and e: "grid s ! i = Some e"
    let ?s2 = "s\<lparr> timeLeft := remaining now s, grid := sweep now (grid s) \<rparr>"
    have occ: "grid s ! i \<noteq> None" using e by simp
    have "grid (spawnEntity d (grid s) (timeLeft s) ?s2) ! i = grid ?s2 ! i"
      by (rule spawnEntity_keeps_occupied [OF occ]) (simp add: length_sweep)
    then show "grid (loop now d s) ! i = despawn now (Some e)"
      using up run i e by (simp add: loop_running sweep_def)
  qed
  from a b c n l m lp loop_score_lives [of now d s] show ?thesis by blast
qed

theorem sweep_clears_expired_only_witness:
  "\<not> isPaused bombUp \<and> 0 < remaining 2600 bombUp \<and> (0::nat) < length (grid bombUp)
   \<and> grid bombUp ! 0 =
        Some \<lparr> ident = ''a'', type = Bomb, spawnTime = 1016, duration = 1500, isHit = False \<rparr>
   \<and> 2600 - (1016::real) > 1500
   \<and> grid (loop 2600 (drawOf 0.5 ''b'' 2600) bombUp) ! 0 = None
   \<and> score (loop 2600 (drawOf 0.5 ''b'' 2600) bombUp) = score bombUp
   \<and> lives (loop 2600 (drawOf 0.5 ''b'' 2600) bombUp) = lives bombUp
   \<and> grid (loop 2000 (drawOf 0.5 ''b'' 2000) bombUp) ! 0 =
        Some \<lparr> ident = ''a'', type = Bomb, spawnTime = 1016, duration = 1500, isHit = False \<rparr>
   \<and> 22508 - (21025::real) > fl (8637763347808255 / 8796093022208 + 500)
   \<and> despawn 22508
        (Some \<lparr> ident = ''b'', type = Mole, spawnTime = 21025,
                duration = 8637763347808255 / 8796093022208, isHit = True \<rparr>) = None"
proof -
  let ?e = "\<lparr> ident = ''a'', type = Bomb, spawnTime = 1016, duration = 1500, isHit = False \<rparr>"
  let ?b = "\<lparr> ident = ''b'', type = Mole, spawnTime = 21025,
                duration = 8637763347808255 / 8796093022208, isHit = True \<rparr>"
  have h: "\<not> isPaused bombUp \<and> 0 < remaining 2600 bombUp \<and> (0::nat) < length (grid bombUp)
     \<and> grid bombUp ! 0 = Some ?e"
    by (simp add: bombUp_def prog_eval fl_eval)
  have h': "0 < remaining 2000 bombUp"
    by (simp add: bombUp_def prog_eval fl_eval)
  have t: "2600 - (1016::real) > 1500" by simp
  have f: "fl (1500 + 500) = 2000" by (simp add: fl_eval)
  have r: "22508 - (21025::real) > fl (8637763347808255 / 8796093022208 + 500)"
    by (simp add: fl_eval)
  note w = sweep_clears_expired_only [of ?e 2600 "grid bombUp" bombUp 0 "drawOf 0.5 ''b'' 2600"]
  note v = sweep_clears_expired_only [of ?e 2000 "grid bombUp" bombUp 0 "drawOf 0.5 ''b'' 2000"]
  note u = sweep_clears_expired_only [of ?b 22508 "grid bombUp" bombUp 0 "drawOf 0.5 ''b'' 2000"]
  from w h t have "grid (loop 2600 (drawOf 0.5 ''b'' 2600) bombUp) ! 0 = None" by simp
  moreover from w have "score (loop 2600 (drawOf 0.5 ''b'' 2600) bombUp) = score bombUp"
    "lives (loop 2600 (drawOf 0.5 ''b'' 2600) bombUp) = lives bombUp" by blast+
  moreover from v h h' f have "grid (loop 2000 (drawOf 0.5 ''b'' 2000) bombUp) ! 0 = Some ?e"
    by simp
  moreover from u r have "despawn 22508 (Some ?b) = None" by simp
  ultimately show ?thesis using h t r by blast
qed

text \<open>
  Claim C6. A tick of a paused game changes nothing. Pausing an unpaused game at clock value
  \<open>tp > 0\<close> and resuming it at \<open>tr\<close>, with any ticks in between, moves \<open>startTime\<close>
  forward by exactly \<open>tr - tp\<close>; the remaining time computed at the resume equals the one
  computed when the pause began, and the displayed \<open>timeLeft\<close> is untouched. Along every
  trace of events with non-decreasing clock values from a mount at a positive clock value,
  \<open>timeLeft\<close> never increases.
\<close>

theorem pause_freezes_time:
  "(isPaused s \<longrightarrow> loop now d s = s)
   \<and> (\<not> isPaused s \<and> 0 < tp \<longrightarrow>
        startTime (setIsPaused tr False
            (foldl (\<lambda>a (t, d). loop t d a) (setIsPaused tp True s) tds))
          = startTime s + (tr - tp)
        \<and> remaining tr (setIsPaused tr False
            (foldl (\<lambda>a (t, d). loop t d a) (setIsPaused tp True s) tds))
          = remaining tp s
        \<and> timeLeft (setIsPaused tr False
            (foldl (\<lambda>a (t, d). loop t d a) (setIsPaused tp True s) tds))
          = timeLeft s)
   \<and> (0 < t0 \<and> timed t0 (es @ es') \<longrightarrow>
        timeLeft (run (es @ es') (mount t0)) \<le> timeLeft (run es (mount t0)))"
proof -
  have a: "isPaused s \<longrightarrow> loop now d s = s" by (simp add: loop_paused)
  have b: "\<not> isPaused s \<and> 0 < tp \<longrightarrow>
        startTime (setIsPaused tr False
            (foldl (\<lambda>a (t, d). loop t d a) (setIsPaused tp True s) tds))
          = startTime s + (tr - tp)
        \<and> remaining tr (setIsPaused tr False
            (foldl (\<lambda>a (t, d). loop t d a) (setIsPaused tp True s) tds))
          = remaining tp s
        \<and> timeLeft (setIsPaused tr False
            (foldl (\<lambda>a (t, d). loop t d a) (setIsPaused tp True s) tds))
          = timeLeft s"
  proof (intro impI, elim conjE)
    assume up: "\<not> isPaused s" and pos: "0 < tp"
    let ?sp = "setIsPaused tp True s"
    from up have sp: "?sp = s\<lparr> isPaused := True, pausedTime := tp \<rparr>"
      by (simp add: setIsPaused_def pauseEffect_def)
    then have "isPaused ?sp" by simp
    then have idle: "foldl (\<lambda>a (t, d). loop t d a) ?sp tds = ?sp" by (rule paused_ticks_idle)
    have sr: "setIsPaused tr False ?sp
        = s\<lparr> isPaused := False, pausedTime := 0, startTime := startTime s + (tr - tp) \<rparr>"
      unfolding sp using pos by (simp add: setIsPaused_def pauseEffect_def Let_def)
    show "startTime (setIsPaused tr False (foldl (\<lambda>a (t, d). loop t d a) ?sp tds))
          = startTime s + (tr - tp)
        \<and> remaining tr (setIsPaused tr False (foldl (\<lambda>a (t, d). loop t d a) ?sp tds))
          = remaining tp s
        \<and> timeLeft (setIsPaused tr False (foldl (\<lambda>a (t, d). loop t d a) ?sp tds))
          = timeLeft s"
      unfolding idle sr by (simp add: remaining_def)
  qed
  have c: "0 < t0 \<and> timed t0 (es @ es') \<longrightarrow>
        timeLeft (run (es @ es') (mount t0)) \<le> timeLeft (run es (mount t0))"
  proof (intro impI, elim conjE)
    assume pos: "0 < t0" and tm: "timed t0 (es @ es')"
    from run_roundInv [OF mount_roundInv [OF pos] tm]
    obtain t' where inv: "roundInv t' (run es (mount t0))" and rest: "timed t' es'" by blast
    from rest have "timed t' (es' @ [])" by simp
    from run_roundInv [OF inv this]
    have "timeLeft (run es' (run es (mount t0))) \<le> timeLeft (run es (mount t0))" by blast
    then show "timeLeft (run (es @ es') (mount t0)) \<le> timeLeft (run es (mount t0))"
      by (simp add: run_append)
  qed
  from a b c show ?thesis by blast
qed

theorem pause_freezes_time_witness:
  "\<not> isPaused (run (take 5 quietRound) (mount 1000)) \<and> (0::real) < 3000
   \<and> isPaused (setIsPaused 3000 True (run (take 5 quietRound) (mount 1000)))
   \<and> loop 4000 (drawOf 0.9 ''c'' 4000)
         (setIsPaused 3000 True (run (take 5 quietRound) (mount 1000)))
       = setIsPaused 3000 True (run (take 5 quietRound) (mount 1000))
   \<and> startTime (setIsPaused 5000 False
         (foldl (\<lambda>a (t, d). loop t d a)
            (setIsPaused 3000 True (run (take 5 quietRound) (mount 1000)))
            [(4000, drawOf 0.9 ''c'' 4000)]))
       = startTime (run (take 5 quietRound) (mount 1000)) + (5000 - 3000)
   \<and> remaining 5000 (setIsPaused 5000 False
         (foldl (\<lambda>a (t, d). loop t d a)
            (setIsPaused 3000 True (run (take 5 quietRound) (mount 1000)))
            [(4000, drawOf 0.9 ''c'' 4000)]))
       = remaining 3000 (run (take 5 quietRound) (mount 1000))
   \<and> (0::real) < 1000 \<and> timed 1000 (take 5 quietRound @ drop 5 quietRound)
   \<and> timeLeft (run (take 5 quietRound @ drop 5 quietRound) (mount 1000))
        \<le> timeLeft (run (take 5 quietRound) (mount 1000))"
proof -
  let ?s = "run (take 5 quietRound) (mount 1000)"
  have h1: "\<not> isPaused ?s \<and> (0::real) < 3000"
    by (simp add: quietRound_def prog_eval fl_eval)
  have h2: "isPaused (setIsPaused 3000 True ?s)"
    by (simp add: quietRound_def prog_eval fl_eval)
  have h3: "(0::real) < 1000 \<and> timed 1000 (take 5 quietRound @ drop 5 quietRound)"
    by (simp add: quietRound_def)
  note w = pause_freezes_time [of ?s 4000 "drawOf 0.9 ''c'' 4000" 3000 5000
      "[(4000, drawOf 0.9 ''c'' 4000)]" 1000 "take 5 quietRound" "drop 5 quietRound"]
  note v = pause_freezes_time [of "setIsPaused 3000 True ?s" 4000 "drawOf 0.9 ''c'' 4000"]
  from v h2 have "loop 4000 (drawOf 0.9 ''c'' 4000) (setIsPaused 3000 True ?s)
       = setIsPaused 3000 True ?s" by blast
  with w h1 h2 h3 show ?thesis by blast
qed

text \<open>
  Claim C7. The kind chosen from the draw \<open>r\<close> is bomb iff \<open>r > 0.85\<close>, golden iff
  \<open>0.7 < r \<le> 0.85\<close>, and mole iff \<open>r \<le> 0.7\<close> (on a uniform draw from [0,1) these are
  intervals of length 0.15, 0.15 and 0.7); and when a spawn succeeds the entity written into
  the chosen slot has the kind chosen from the draw, and is unhit.
\<close>

theorem kind_of_roll:
  "(pickType r = Bomb \<longleftrightarrow> r > 0.85)
   \<and> (pickType r = Golden \<longleftrightarrow> 0.7 < r \<and> r \<le> 0.85)
   \<and> (pickType r = Mole \<longleftrightarrow> r \<le> 0.7)
   \<and> (int (currentCount g) < maxConcurrent tleft
        \<and> elemAt (emptyIndices g) \<lfloor>fl (pick d * real (length (emptyIndices g)))\<rfloor> = Some i
        \<and> length (grid s) = length g
        \<longrightarrow> map_option type (grid (spawnEntity d g tleft s) ! nat i) = Some (pickType (roll d))
          \<and> map_option isHit (grid (spawnEntity d g tleft s) ! nat i) = Some False)"
proof -
  have k: "(pickType r = Bomb \<longleftrightarrow> r > 0.85)
   \<and> (pickType r = Golden \<longleftrightarrow> 0.7 < r \<and> r \<le> 0.85)
   \<and> (pickType r = Mole \<longleftrightarrow> r \<le> 0.7)"
    by (simp add: pickType_def)
  have sp: "int (currentCount g) < maxConcurrent tleft
        \<and> elemAt (emptyIndices g) \<lfloor>fl (pick d * real (length (emptyIndices g)))\<rfloor> = Some i
        \<and> length (grid s) = length g
        \<longrightarrow> map_option type (grid (spawnEntity d g tleft s) ! nat i) = Some (pickType (roll d))
          \<and> map_option isHit (grid (spawnEntity d g tleft s) ! nat i) = Some False"
  proof (intro impI, elim conjE)
    assume lt: "int (currentCount g) < maxConcurrent tleft"
      and i: "elemAt (emptyIndices g) \<lfloor>fl (pick d * real (length (emptyIndices g)))\<rfloor> = Some i"
      and len: "length (grid s) = length g"
    from i have "i \<in> set (emptyIndices g)" by (rule elemAt_in_set)
    then have "0 \<le> i \<and> nat i < length g \<and> g ! nat i = None" by (rule emptyIndices_mem)
    with len have rng: "\<not> i < 0" "nat i < length (grid s)" by auto
    from i have ne: "emptyIndices g \<noteq> []" by (auto simp: elemAt_def split: if_splits)
    show "map_option type (grid (spawnEntity d g tleft s) ! nat i) = Some (pickType (roll d))
          \<and> map_option isHit (grid (spawnEntity d g tleft s) ! nat i) = Some False"
      using lt i rng ne
      by (simp add: spawnEntity_def Let_def maxConcurrent_def putEntity_def)
  qed
  from k sp show ?thesis by blast
qed

theorem kind_of_roll_witness:
  "int (currentCount (grid (mount 1000))) < maxConcurrent 30
   \<and> elemAt (emptyIndices (grid (mount 1000)))
        \<lfloor>fl (pick (drawOf 0.9 ''a'' 1016)
           * real (length (emptyIndices (grid (mount 1000)))))\<rfloor> = Some 0
   \<and> map_option type
        (grid (spawnEntity (drawOf 0.9 ''a'' 1016) (grid (mount 1000)) 30 (mount 1000)) ! nat 0)
       = Some (pickType (roll (drawOf 0.9 ''a'' 1016)))
   \<and> pickType (roll (drawOf 0.9 ''a'' 1016)) = Bomb"
proof -
  have h: "int (currentCount (grid (mount 1000))) < maxConcurrent 30
   \<and> elemAt (emptyIndices (grid (mount 1000)))
        \<lfloor>fl (pick (drawOf 0.9 ''a'' 1016)
           * real (length (emptyIndices (grid (mount 1000)))))\<rfloor> = Some 0"
    by (simp add: prog_eval fl_eval)
  have b: "pickType (roll (drawOf 0.9 ''a'' 1016)) = Bomb"
    using kind_of_roll [of "roll (drawOf 0.9 ''a'' 1016)"] by (simp add: drawOf_def)
  from kind_of_roll [of "roll (drawOf 0.9 ''a'' 1016)" "grid (mount 1000)" 30
      "drawOf 0.9 ''a'' 1016" 0 "mount 1000"] h
  have "map_option type
        (grid (spawnEntity (drawOf 0.9 ''a'' 1016) (grid (mount 1000)) 30 (mount 1000)) ! nat 0)
       = Some (pickType (roll (drawOf 0.9 ''a'' 1016)))"
    by blast
  with h b show ?thesis by blast
qed

text \<open>
  Claim C8, as stated, has a spawn attempted as soon as \<^emph>\<open>at least\<close> the interpolated
  interval has elapsed since the last attempt. The loop tests \<open>now - lastSpawnTime >
  currentSpawnInterval\<close>: in the round mounted at 1000 whose last attempt was at 7800, the
  tick at 8500 computes the interval 700, exactly 700 ms have elapsed, and no attempt is made.
\<close>

theorem spawn_boundary_not_attempted:
  "\<not> isPaused cadenceState \<and> 0 < remaining 8500 cadenceState
   \<and> 8500 - lastSpawnTime cadenceState
        \<ge> SPAWN_INTERVAL_START
            - ((GAME_DURATION - remaining 8500 cadenceState) / GAME_DURATION)
              * (SPAWN_INTERVAL_START - SPAWN_INTERVAL_END)
   \<and> spawnCalls (loop 8500 (drawOf 0.5 ''b'' 8500) cadenceState) = spawnCalls cadenceState
   \<and> lastSpawnTime (loop 8500 (drawOf 0.5 ''b'' 8500) cadenceState) = 7800"
  by (simp add: cadenceState_def prog_eval fl_eval)

text \<open>
  Claim C8, amended. On a tick that is not paused and finds time left, \<open>spawnEntity\<close> is
  called iff \<^emph>\<open>more than\<close> the interval has passed since the last attempt, the
  interval being \<open>800 - d * (800 - 400)\<close> as the code computes it in doubles, each operation
  rounded to the nearest double, with \<open>d = (30 - newTimeLeft) / 30\<close> from the remaining time
  of that tick; an attempt sets the reference to \<open>now\<close> whether or not it placed an entity,
  and a tick without an attempt leaves it alone. A paused tick and a tick that finds no time
  left attempt nothing.
\<close>

theorem spawn_cadence:
  "(\<not> isPaused s \<and> 0 < remaining now s \<longrightarrow>
      (spawnCalls (loop now d s) = Suc (spawnCalls s) \<longleftrightarrow>
         now - lastSpawnTime s
           > fl (SPAWN_INTERVAL_START
                 - fl (fl (fl (GAME_DURATION - remaining now s) / GAME_DURATION)
                       * fl (SPAWN_INTERVAL_START - SPAWN_INTERVAL_END))))
      \<and> (spawnCalls (loop now d s) = Suc (spawnCalls s) \<longrightarrow> lastSpawnTime (loop now d s) = now)
      \<and> (spawnCalls (loop now d s) \<noteq> Suc (spawnCalls s) \<longrightarrow>
             spawnCalls (loop now d s) = spawnCalls s
             \<and> lastSpawnTime (loop now d s) = lastSpawnTime s))
   \<and> (isPaused s \<or> remaining now s \<le> 0 \<longrightarrow>
        spawnCalls (loop now d s) = spawnCalls s
        \<and> lastSpawnTime (loop now d s) = lastSpawnTime s)"
proof (intro conjI impI)
  assume "isPaused s \<or> remaining now s \<le> 0"
  then show "spawnCalls (loop now d s) = spawnCalls s"
    by (auto simp: loop_def Let_def onGameOver_def)
next
  assume "isPaused s \<or> remaining now s \<le> 0"
  then show "lastSpawnTime (loop now d s) = lastSpawnTime s"
    by (auto simp: loop_def Let_def onGameOver_def)
next
  assume r: "\<not> isPaused s \<and> 0 < remaining now s"
  then show "spawnCalls (loop now d s) = Suc (spawnCalls s) \<longleftrightarrow>
         now - lastSpawnTime s
           > fl (SPAWN_INTERVAL_START
                 - fl (fl (fl (GAME_DURATION - remaining now s) / GAME_DURATION)
                       * fl (SPAWN_INTERVAL_START - SPAWN_INTERVAL_END)))"
    by (simp add: loop_running currentSpawnInterval_def Let_def spawnEntity_other_fields)
next
  assume r: "\<not> isPaused s \<and> 0 < remaining now s"
    and a: "spawnCalls (loop now d s) = Suc (spawnCalls s)"
  then show "lastSpawnTime (loop now d s) = now"
    by (simp add: loop_running split: if_splits)
next
  assume r: "\<not> isPaused s \<and> 0 < remaining now s"
    and a: "spawnCalls (loop now d s) \<noteq> Suc (spawnCalls s)"
  then show "spawnCalls (loop now d s) = spawnCalls s"
    by (simp add: loop_running split: if_splits)
next
  assume r: "\<not> isPaused s \<and> 0 < remaining now s"
    and a: "spawnCalls (loop now d s) \<noteq> Suc (spawnCalls s)"
  then show "lastSpawnTime (loop now d s) = lastSpawnTime s"
    by (simp add: loop_running split: if_splits)
qed

theorem spawn_cadence_witness:
  "\<not> isPaused lateCadenceState \<and> 0 < remaining 22600 lateCadenceState
   \<and> 22600 - lastSpawnTime lateCadenceState = 512
   \<and> fl (SPAWN_INTERVAL_START
          - fl (fl (fl (GAME_DURATION - remaining 22600 lateCadenceState) / GAME_DURATION)
                * fl (SPAWN_INTERVAL_START - SPAWN_INTERVAL_END)))
       = 9007199254740991 / 17592186044416
   \<and> 22600 - lastSpawnTime lateCadenceState
        > fl (SPAWN_INTERVAL_START
              - fl (fl (fl (GAME_DURATION - remaining 22600 lateCadenceState) / GAME_DURATION)
                    * fl (SPAWN_INTERVAL_START - SPAWN_INTERVAL_END)))
   \<and> spawnCalls (loop 22600 (drawOf 0.5 ''b'' 22600) lateCadenceState)
        = Suc (spawnCalls lateCadenceState)
   \<and> lastSpawnTime (loop 22600 (drawOf 0.5 ''b'' 22600) lateCadenceState) = 22600
   \<and> \<not> isPaused cadenceState \<and> 0 < remaining 8501 cadenceState
   \<and> 8501 - lastSpawnTime cadenceState
        > fl (SPAWN_INTERVAL_START
              - fl (fl (fl (GAME_DURATION - remaining 8501 cadenceState) / GAME_DURATION)
                    * fl (SPAWN_INTERVAL_START - SPAWN_INTERVAL_END)))
   \<and> spawnCalls (loop 8501 (drawOf 0.5 ''b'' 8501) cadenceState)
        = Suc (spawnCalls cadenceState)
   \<and> grid (loop 8501 (drawOf 0.5 ''b'' 8501) cadenceState) = sweep 8501 (grid cadenceState)"
proof -
  have h: "\<not> isPaused lateCadenceState \<and> 0 < remaining 22600 lateCadenceState
   \<and> 22600 - lastSpawnTime lateCadenceState = 512
   \<and> fl (SPAWN_INTERVAL_START
          - fl (fl (fl (GAME_DURATION - remaining 22600 lateCadenceState) / GAME_DURATION)
                * fl (SPAWN_INTERVAL_START - SPAWN_INTERVAL_END)))
       = 9007199254740991 / 17592186044416"
    by (simp add: lateCadenceState_def prog_eval fl_eval)
  then have lt: "22600 - lastSpawnTime lateCadenceState
        > fl (SPAWN_INTERVAL_START
              - fl (fl (fl (GAME_DURATION - remaining 22600 lateCadenceState) / GAME_DURATION)
                    * fl (SPAWN_INTERVAL_START - SPAWN_INTERVAL_END)))"
    by simp
  have k: "\<not> isPaused cadenceState \<and> 0 < remaining 8501 cadenceState
   \<and> 8501 - lastSpawnTime cadenceState
        > fl (SPAWN_INTERVAL_START
              - fl (fl (fl (GAME_DURATION - remaining 8501 cadenceState) / GAME_DURATION)
                    * fl (SPAWN_INTERVAL_START - SPAWN_INTERVAL_END)))"
    by (simp add: cadenceState_def prog_eval fl_eval)
  have g: "grid (loop 8501 (drawOf 0.5 ''b'' 8501) cadenceState) = sweep 8501 (grid cadenceState)"
    by (simp add: cadenceState_def prog_eval fl_eval)
  note w = spawn_cadence [of lateCadenceState 22600 "drawOf 0.5 ''b'' 22600"]
  note v = spawn_cadence [of cadenceState 8501 "drawOf 0.5 ''b'' 8501"]
  from w h lt have "spawnCalls (loop 22600 (drawOf 0.5 ''b'' 22600) lateCadenceState)
        = Suc (spawnCalls lateCadenceState)
     \<and> lastSpawnTime (loop 22600 (drawOf 0.5 ''b'' 22600) lateCadenceState) = 22600"
    by blast
  moreover from v k have "spawnCalls (loop 8501 (drawOf 0.5 ''b'' 8501) cadenceState)
        = Suc (spawnCalls cadenceState)"
    by blast
  ultimately show ?thesis using h lt k g by blast
qed

text \<open>
  Claim C9, as stated, asks that an index outside the grid be rejected by an assertion. The
  component reads \<open>grid[index]\<close>, which is \<open>undefined\<close> outside the bounds, and returns:
  at index 12 and at index -1 the call completes with the state unchanged.
\<close>

theorem handleWhack_out_of_bounds_accepted:
  "handleWhack 1100 12 (grid bombUp) (score bombUp) bombUp = bombUp
   \<and> handleWhack 1100 (- 1) (grid bombUp) (score bombUp) bombUp = bombUp"
  by (simp add: handleWhack_def elemAt_def bombUp_def prog_eval fl_eval)

text \<open>
  Claim C9, amended: the hit resolver silently ignores an index outside the grid it reads
  (negative, or not below the length of the grid, which is 12), whichever render the
  callback comes from; the state is unchanged.
\<close>

theorem handleWhack_out_of_bounds_ignored:
  "index < 0 \<or> int (length g) \<le> index \<longrightarrow> handleWhack now index g sc s = s"
  by (auto simp: handleWhack_def elemAt_def)

theorem handleWhack_out_of_bounds_ignored_witness:
  "int (length (grid bombUp)) \<le> 12
   \<and> handleWhack 1100 12 (grid bombUp) (score bombUp) bombUp = bombUp"
proof -
  have h: "int (length (grid bombUp)) \<le> 12"
    by (simp add: bombUp_def prog_eval fl_eval)
  from handleWhack_out_of_bounds_ignored [of 12 "grid bombUp" 1100 "score bombUp" bombUp] h
  show ?thesis by simp
qed

text \<open>
  Claim C10. When the hit resolver is invoked on a slot that holds an unhit entity, the new
  grid is the old grid with that one slot replaced by the same entity with \<open>isHit\<close> set:
  the length and every other slot are unchanged, and the entity keeps its id, type,
  spawnTime and duration. A callback from an earlier render either changes the grid in
  exactly the same way or not at all.
\<close>

theorem handleWhack_frame:
  "elemAt (grid s) index = Some (Some e) \<and> \<not> isHit e \<longrightarrow>
     grid (handleWhack now index (grid s) (score s) s)
       = (grid s)[nat index := Some (e\<lparr> isHit := True \<rparr>)]
     \<and> length (grid (handleWhack now index (grid s) (score s) s)) = length (grid s)
     \<and> (\<forall>j. j \<noteq> nat index \<longrightarrow>
           grid (handleWhack now index (grid s) (score s) s) ! j = grid s ! j)
     \<and> (\<exists>e'. grid (handleWhack now index (grid s) (score s) s) ! nat index = Some e'
            \<and> isHit e' \<and> ident e' = ident e \<and> type e' = type e
            \<and> spawnTime e' = spawnTime e \<and> duration e' = duration e)
     \<and> (\<forall>g sc. grid (handleWhack now index g sc s) = grid s
            \<or> grid (handleWhack now index g sc s)
                 = (grid s)[nat index := Some (e\<lparr> isHit := True \<rparr>)])"
proof (intro impI, elim conjE)
  assume slot: "elemAt (grid s) index = Some (Some e)" and fresh: "\<not> isHit e"
  from slot have rng: "nat index < length (grid s)" by (simp add: elemAt_Some_iff)
  note g = grid_handleWhack_fresh [OF slot fresh, of now "score s"]
  have st: "\<forall>g sc. grid (handleWhack now index g sc s) = grid s
            \<or> grid (handleWhack now index g sc s)
                 = (grid s)[nat index := Some (e\<lparr> isHit := True \<rparr>)]"
    using grid_handleWhack_cases [of now index _ _ s] markHit_unhit [OF slot] by auto
  show "grid (handleWhack now index (grid s) (score s) s)
       = (grid s)[nat index := Some (e\<lparr> isHit := True \<rparr>)]
     \<and> length (grid (handleWhack now index (grid s) (score s) s)) = length (grid s)
     \<and> (\<forall>j. j \<noteq> nat index \<longrightarrow>
           grid (handleWhack now index (grid s) (score s) s) ! j = grid s ! j)
     \<and> (\<exists>e'. grid (handleWhack now index (grid s) (score s) s) ! nat index = Some e'
            \<and> isHit e' \<and> ident e' = ident e \<and> type e' = type e
            \<and> spawnTime e' = spawnTime e \<and> duration e' = duration e)
     \<and> (\<forall>g sc. grid (handleWhack now index g sc s) = grid s
            \<or> grid (handleWhack now index g sc s)
                 = (grid s)[nat index := Some (e\<lparr> isHit := True \<rparr>)])"
    unfolding g using rng st by simp
qed

theorem handleWhack_frame_witness:
  "elemAt (grid moleUp) 0 =
     Some (Some \<lparr> ident = ''a'', type = Mole, spawnTime = 1016, duration = 1500, isHit = False \<rparr>)
   \<and> grid (handleWhack 1100 0 (grid moleUp) (score moleUp) moleUp) =
     (grid moleUp)[nat 0 := Some \<lparr> ident = ''a'', type = Mole, spawnTime = 1016,
                                  duration = 1500, isHit = True \<rparr>]"
proof -
  have h: "elemAt (grid moleUp) 0 =
     Some (Some \<lparr> ident = ''a'', type = Mole, spawnTime = 1016, duration = 1500, isHit = False \<rparr>)"
    by (simp add: moleUp_def prog_eval fl_eval)
  from handleWhack_frame [of moleUp 0
      "\<lparr> ident = ''a'', type = Mole, spawnTime = 1016, duration = 1500, isHit = False \<rparr>" 1100] h
  show ?thesis by simp
qed

end
